theory Spec2Isabelle
  imports Complex_Main "HOL-Library.Word" "HOL-Library.Log_Nat" "HOL-Library.Monad_Syntax"
begin

section \<open>JavaScript values used by App.js\<close>

text \<open>
  A JavaScript string is a sequence of UTF-16 code units: \<open>text.length\<close> counts code units,
  \<open>charCodeAt\<close> reads one, \<open>split(" ")\<close> cuts at the code unit 0x20. A string has fewer
  than \<open>2^53\<close> code units, so its length is a Number without rounding. Bytes of an
  \<open>ArrayBuffer\<close> or a \<open>Blob\<close> are 8-bit words.
\<close>

type_synonym byte = "8 word"
type_synonym jschar = "16 word"
type_synonym jsstring = "jschar list"

definition js :: "string \<Rightarrow> jsstring" where
  \<comment> \<open>an ASCII literal of the source as a JavaScript string\<close>
  "js s = map of_char s"

definition space :: jschar where
  "space = 0x20"

definition is_js_whitespace :: "jschar \<Rightarrow> bool" where
  \<comment> \<open>ECMAScript WhiteSpace and LineTerminator, the code units removed by \<open>String.prototype.trim\<close>\<close>
  "is_js_whitespace c \<longleftrightarrow>
     c \<in> set [0x09, 0x0A, 0x0B, 0x0C, 0x0D, 0x20, 0xA0, 0x1680, 0x2000, 0x2001, 0x2002, 0x2003,
               0x2004, 0x2005, 0x2006, 0x2007, 0x2008, 0x2009, 0x200A, 0x2028, 0x2029, 0x202F,
               0x205F, 0x3000, 0xFEFF]"

definition trim :: "jsstring \<Rightarrow> jsstring" where
  "trim s = rev (dropWhile is_js_whitespace (rev (dropWhile is_js_whitespace s)))"

fun split_from :: "jsstring \<Rightarrow> jsstring \<Rightarrow> jsstring list" where
  \<comment> \<open>\<open>split_from w s\<close>: the pieces of \<open>s\<close>, the piece being read having \<open>w\<close> so far\<close>
  "split_from w [] = [w]"
| "split_from w (c # cs) = (if c = space then w # split_from [] cs else split_from (w @ [c]) cs)"

definition split_space :: "jsstring \<Rightarrow> jsstring list" where
  \<comment> \<open>\<open>text.split(" ")\<close>: cut at every single space, empty pieces kept\<close>
  "split_space s = split_from [] s"

subsection \<open>Numbers\<close>

text \<open>
  A JavaScript Number is an IEEE 754 binary64 value. The finite ones are rationals, and every
  arithmetic operation returns the exact result rounded to the nearest binary64 value, ties
  to even (\<open>fl\<close>). All operands of App.js are finite and far below the overflow threshold;
  NaN, the infinities and the sign of zero are not modelled.
\<close>

definition pow2 :: "int \<Rightarrow> rat" where
  "pow2 k = (if 0 \<le> k then 2 ^ nat k else 1 / 2 ^ nat (- k))"

definition ilog2 :: "rat \<Rightarrow> int" where
  \<comment> \<open>for \<open>0 < a\<close>, the exponent \<open>e\<close> with \<open>2^e \<le> a < 2^(e+1)\<close>\<close>
  "ilog2 a = (if 1 \<le> a then bitlen \<lfloor>a\<rfloor> - 1 else - bitlen (\<lceil>1 / a\<rceil> - 1))"

definition rne :: "rat \<Rightarrow> int" where
  \<comment> \<open>round to the nearest integer, ties to even\<close>
  "rne t = (let f = \<lfloor>t\<rfloor>; r = t - of_int f in
     if r < 1 / 2 then f else if 1 / 2 < r then f + 1 else if even f then f else f + 1)"

definition fl :: "rat \<Rightarrow> rat" where
  \<comment> \<open>binary64 rounding: 53 significant bits, subnormals below \<open>2^-1022\<close>\<close>
  "fl x = (if x = 0 then 0 else
     (let q = pow2 (max (ilog2 \<bar>x\<bar>) (- 1022) - 52)
      in sgn x * of_int (rne (\<bar>x\<bar> / q)) * q))"

definition js_mul :: "rat \<Rightarrow> rat \<Rightarrow> rat" where
  "js_mul a b = fl (a * b)"

definition js_div :: "rat \<Rightarrow> rat \<Rightarrow> rat" where
  \<comment> \<open>the divisors of App.js are sampleRate, duration and wordDuration, none of them zero\<close>
  "js_div a b = fl (a / b)"

definition js_add :: "rat \<Rightarrow> rat \<Rightarrow> rat" where
  "js_add a b = fl (a + b)"

definition js_sub :: "rat \<Rightarrow> rat \<Rightarrow> rat" where
  "js_sub a b = fl (a - b)"

definition js_trunc :: "rat \<Rightarrow> int" where
  \<comment> \<open>rounding towards zero, as ToIntegerOrInfinity does\<close>
  "js_trunc x = (if 0 \<le> x then \<lfloor>x\<rfloor> else \<lceil>x\<rceil>)"

definition js_rem :: "rat \<Rightarrow> rat \<Rightarrow> rat" where
  \<comment> \<open>the operator \<open>%\<close>: exact, with the sign of the dividend\<close>
  "js_rem a b = a - b * of_int (js_trunc (a / b))"

definition lit :: "rat \<Rightarrow> rat" where
  \<comment> \<open>a decimal literal of the source denotes the nearest binary64 value\<close>
  "lit d = fl d"

definition Math_PI :: rat where
  \<comment> \<open>the binary64 value 3.141592653589793\<close>
  "Math_PI = 884279719003555 / 2 ^ 48"

definition Math_floor :: "rat \<Rightarrow> int" where
  "Math_floor x = \<lfloor>x\<rfloor>"

definition Math_min :: "rat \<Rightarrow> rat \<Rightarrow> rat" where
  "Math_min a b = min a b"

definition Math_max :: "rat \<Rightarrow> rat \<Rightarrow> rat" where
  "Math_max a b = max a b"

subsection \<open>DataView over an ArrayBuffer\<close>

text \<open>
  A write outside the buffer throws RangeError: the result is \<open>None\<close>. Every multi-byte
  write of App.js passes \<open>littleEndian = true\<close>. The integer setters reduce their argument
  modulo the field width, \<open>setInt16\<close> first truncates the Number towards zero.
\<close>

definition setUint8 :: "byte list \<Rightarrow> nat \<Rightarrow> int \<Rightarrow> byte list option" where
  "setUint8 view off v =
     (if off + 1 \<le> length view then Some (view[off := word_of_int v]) else None)"

definition setUint16 :: "byte list \<Rightarrow> nat \<Rightarrow> int \<Rightarrow> byte list option" where
  "setUint16 view off v =
     (if off + 2 \<le> length view
      then Some (view[off := word_of_int v, off + 1 := word_of_int (v div 2 ^ 8)])
      else None)"

definition setUint32 :: "byte list \<Rightarrow> nat \<Rightarrow> int \<Rightarrow> byte list option" where
  "setUint32 view off v =
     (if off + 4 \<le> length view
      then Some (view[off := word_of_int v, off + 1 := word_of_int (v div 2 ^ 8),
                      off + 2 := word_of_int (v div 2 ^ 16), off + 3 := word_of_int (v div 2 ^ 24)])
      else None)"

definition setInt16 :: "byte list \<Rightarrow> nat \<Rightarrow> rat \<Rightarrow> byte list option" where
  "setInt16 view off x = setUint16 view off (js_trunc x)"

fun writeString :: "byte list \<Rightarrow> nat \<Rightarrow> jsstring \<Rightarrow> byte list option" where
  \<comment> \<open>the local helper of generateHighQualityAudio: one \<open>setUint8\<close> per code unit\<close>
  "writeString view off [] = Some view"
| "writeString view off (c # cs) =
     setUint8 view off (uint c) \<bind> (\<lambda>view'. writeString view' (off + 1) cs)"

section \<open>The host platform\<close>

text \<open>
  What App.js takes from the browser and cannot compute itself: the random numbers, the
  platform's approximation of the sine, whether a buffer can be allocated, whether a
  microphone stream and a webm recorder can be had, whether a recorder agrees to start,
  and the clock.
\<close>

record env =
  random :: "nat \<Rightarrow> rat"
  msin :: "rat \<Rightarrow> rat"
  alloc_ok :: "nat \<Rightarrow> bool"
  hasMediaDevices :: bool
  micGranted :: bool
  webmSupported :: bool
  startable :: bool
  now :: nat

section \<open>generateHighQualityAudio\<close>

record blob =
  bytes :: "byte list"
  mime :: string

definition sampleRate :: rat where
  "sampleRate = 22050"

definition duration :: "jsstring \<Rightarrow> rat" where
  "duration text = Math_max 2 (Math_min (js_mul (of_nat (length text)) (lit (15 / 100))) 30)"

definition numSamples :: "jsstring \<Rightarrow> nat" where
  "numSamples text = nat (Math_floor (js_mul sampleRate (duration text)))"

definition wordDuration :: "jsstring \<Rightarrow> rat" where
  "wordDuration text = js_div (duration text) (of_nat (length (split_space text)))"

definition time :: "nat \<Rightarrow> rat" where
  "time i = js_div (of_nat i) sampleRate"

definition wordIndex :: "jsstring \<Rightarrow> nat \<Rightarrow> int" where
  "wordIndex text i = Math_floor (js_div (time i) (wordDuration text))"

definition baseFreq :: "jsstring \<Rightarrow> nat \<Rightarrow> rat" where
  "baseFreq text i = js_add 120 (js_mul (js_rem (of_int (wordIndex text i)) 5) 40)"

definition formant1 :: "env \<Rightarrow> jsstring \<Rightarrow> nat \<Rightarrow> rat" where
  "formant1 e text i =
     msin e (js_mul (js_mul (js_mul 2 Math_PI) (baseFreq text i)) (time i))"

definition formant2 :: "env \<Rightarrow> jsstring \<Rightarrow> nat \<Rightarrow> rat" where
  "formant2 e text i =
     js_mul (msin e (js_mul (js_mul (js_mul 2 Math_PI) (js_mul (baseFreq text i) (lit (25 / 10))))
                            (time i)))
            (lit (3 / 10))"

definition formant3 :: "env \<Rightarrow> jsstring \<Rightarrow> nat \<Rightarrow> rat" where
  "formant3 e text i =
     js_mul (msin e (js_mul (js_mul (js_mul 2 Math_PI) (js_mul (baseFreq text i) (lit (35 / 10))))
                            (time i)))
            (lit (1 / 10))"

definition amplitude :: "env \<Rightarrow> jsstring \<Rightarrow> nat \<Rightarrow> rat" where
  "amplitude e text i =
     (let wordTime = js_rem (time i) (wordDuration text);
          wordProgress = js_div wordTime (wordDuration text)
      in js_mul (js_mul (msin e (js_mul wordProgress Math_PI))
                        (js_sub 1 (js_div (time i) (duration text))))
                (lit (4 / 10)))"

definition sample :: "env \<Rightarrow> jsstring \<Rightarrow> nat \<Rightarrow> rat" where
  \<comment> \<open>the Number handed to \<open>setInt16\<close> in iteration \<open>i\<close>, after the noise and the clamp\<close>
  "sample e text i =
     (let s0 = js_mul (js_mul (js_add (js_add (formant1 e text i) (formant2 e text i))
                                      (formant3 e text i))
                              (amplitude e text i))
                      32767;
          s1 = js_add s0 (js_mul (js_sub (random e i) (lit (5 / 10))) 1000)
      in Math_max (- 32768) (Math_min 32767 s1))"

definition write_header :: "byte list \<Rightarrow> nat \<Rightarrow> byte list option" where
  \<comment> \<open>lines 167 to 179: the thirteen header writes, in the source's order\<close>
  "write_header view n =
     writeString view 0 (js ''RIFF'') \<bind> (\<lambda>v.
     setUint32 v 4 (36 + int n * 2) \<bind> (\<lambda>v.
     writeString v 8 (js ''WAVE'') \<bind> (\<lambda>v.
     writeString v 12 (js ''fmt '') \<bind> (\<lambda>v.
     setUint32 v 16 16 \<bind> (\<lambda>v.
     setUint16 v 20 1 \<bind> (\<lambda>v.
     setUint16 v 22 1 \<bind> (\<lambda>v.
     setUint32 v 24 22050 \<bind> (\<lambda>v.
     setUint32 v 28 (22050 * 2) \<bind> (\<lambda>v.
     setUint16 v 32 2 \<bind> (\<lambda>v.
     setUint16 v 34 16 \<bind> (\<lambda>v.
     writeString v 36 (js ''data'') \<bind> (\<lambda>v.
     setUint32 v 40 (int n * 2)))))))))))))"

function fill_samples :: "(nat \<Rightarrow> rat) \<Rightarrow> nat \<Rightarrow> nat \<Rightarrow> nat \<Rightarrow> byte list \<Rightarrow> byte list option" where
  \<comment> \<open>the loop of lines 186 to 222 from iteration \<open>i\<close> on, \<open>smp i\<close> being the clamped sample\<close>
  "fill_samples smp n i offset view =
     (if i < n
      then setInt16 view offset (smp i) \<bind> (\<lambda>view'. fill_samples smp n (i + 1) (offset + 2) view')
      else Some view)"
  by pat_completeness auto
termination
  by (relation "measure (\<lambda>(smp, n, i, offset, view). n - i)") auto

definition new_ArrayBuffer :: "env \<Rightarrow> nat \<Rightarrow> byte list option" where
  \<comment> \<open>zero-filled; throws RangeError when the allocation fails\<close>
  "new_ArrayBuffer e n = (if alloc_ok e n then Some (replicate n 0) else None)"

definition wav_buffer :: "env \<Rightarrow> jsstring \<Rightarrow> byte list option" where
  \<comment> \<open>the \<open>try\<close> block of generateHighQualityAudio; \<open>None\<close> when a statement of it throws\<close>
  "wav_buffer e text =
     new_ArrayBuffer e (44 + numSamples text * 2) \<bind> (\<lambda>buffer.
     write_header buffer (numSamples text) \<bind> (\<lambda>view.
     fill_samples (sample e text) (numSamples text) 0 44 view))"

definition generateHighQualityAudio :: "env \<Rightarrow> jsstring \<Rightarrow> blob" where
  \<comment> \<open>the promise always resolves: with the WAV blob, or from the \<open>catch\<close> with a blob of no bytes\<close>
  "generateHighQualityAudio e text =
     (case wav_buffer e text of
        Some buffer \<Rightarrow> \<lparr>bytes = buffer, mime = ''audio/wav''\<rparr>
      | None \<Rightarrow> \<lparr>bytes = [], mime = ''audio/wav''\<rparr>)"

section \<open>The component state\<close>

text \<open>
  The React state and refs of \<open>App\<close> that the speech handlers read or write (the state
  \<open>text\<close> is the field \<open>inputText\<close>), the state of the two browser objects they drive
  (\<open>speechSynthesis\<close> and the \<open>MediaRecorder\<close>), and what the component hands to the
  outside: the utterances given to the engine, the alert boxes and the downloads. The closure
  variables \<open>recordingReady\<close> and \<open>recordingStarted\<close> of one call of \<open>speak\<close> are kept with
  its utterance. Stopping a recorder queues its two events in \<open>pending\<close>; the browser
  delivers them later. An object URL stands for the blob it was created from, so \<open>audioUrl\<close> is the
  current artifact or \<open>None\<close> for \<open>null\<close>. Each handler runs to completion; an \<open>await\<close>
  inside it is not interleaved with other events. \<open>console.error\<close> is not recorded.
\<close>

datatype rec_state = Inactive | Recording | RecPaused

record recorder =
  rstate :: rec_state
  gathered :: "byte list"

datatype task = DataAvailable "byte list" | RecorderStopped

record utterance =
  utext :: jsstring
  uvoice :: "string option"
  urate :: rat
  upitch :: rat
  uvolume :: rat
  recordingReady :: bool
  recordingStarted :: bool

record app =
  inputText :: jsstring
  isSpeaking :: bool
  selectedVoice :: "string option"
  rate :: rat
  pitch :: rat
  volume :: rat
  isPaused :: bool
  audioUrl :: "blob option"
  isProcessing :: bool
  isRecording :: bool
  recordingError :: string
  synth_speaking :: bool
  synth_paused :: bool
  synth_spoken :: "utterance list"
  mediaRecorder :: "recorder option"
  audioChunks :: "byte list list"
  streamLive :: "bool option"
  utteranceRef :: "utterance option"
  pending :: "task list"
  alerts :: "string list"
  downloads :: "(blob \<times> nat) list"

definition initial :: app where
  \<comment> \<open>the \<open>useState\<close> and \<open>useRef\<close> initial values\<close>
  "initial = \<lparr>inputText = [], isSpeaking = False, selectedVoice = None, rate = 1, pitch = 1,
     volume = 1, isPaused = False, audioUrl = None, isProcessing = False, isRecording = False,
     recordingError = [], synth_speaking = False, synth_paused = False, synth_spoken = [],
     mediaRecorder = None, audioChunks = [], streamLive = None, utteranceRef = None,
     pending = [], alerts = [], downloads = []\<rparr>"

subsection \<open>The MediaRecorder\<close>

definition recorder_start :: "env \<Rightarrow> recorder \<Rightarrow> recorder option" where
  \<comment> \<open>\<open>start()\<close> throws from a state other than inactive, or when the platform refuses\<close>
  "recorder_start e r =
     (if rstate r = Inactive \<and> startable e then Some (r\<lparr>rstate := Recording, gathered := []\<rparr>)
      else None)"

definition recorder_stop :: "recorder \<Rightarrow> (recorder \<times> task list) option" where
  \<comment> \<open>\<open>stop()\<close> throws InvalidStateError when inactive; otherwise the recorder becomes inactive
      and queues a dataavailable event with the gathered data, then a stop event\<close>
  "recorder_stop r =
     (if rstate r = Inactive then None
      else Some (r\<lparr>rstate := Inactive, gathered := []\<rparr>, [DataAvailable (gathered r), RecorderStopped]))"

definition audio_captured :: "byte list \<Rightarrow> app \<Rightarrow> app" where
  \<comment> \<open>the input device delivers audio: a recording recorder gathers it\<close>
  "audio_captured d s =
     (case mediaRecorder s of
        Some r \<Rightarrow> (if rstate r = Recording
                   then s\<lparr>mediaRecorder := Some (r\<lparr>gathered := gathered r @ d\<rparr>)\<rparr> else s)
      | None \<Rightarrow> s)"

definition ondataavailable :: "byte list \<Rightarrow> app \<Rightarrow> app" where
  "ondataavailable d s = (if 0 < length d then s\<lparr>audioChunks := audioChunks s @ [d]\<rparr> else s)"

definition onstop :: "app \<Rightarrow> app" where
  "onstop s =
     (let audioBlob = \<lparr>bytes = concat (audioChunks s), mime = ''audio/webm''\<rparr>;
          s1 = s\<lparr>audioUrl := Some audioBlob, isRecording := False\<rparr>
      in (case streamLive s1 of Some _ \<Rightarrow> s1\<lparr>streamLive := Some False\<rparr> | None \<Rightarrow> s1))"

fun run_task :: "task \<Rightarrow> app \<Rightarrow> app" where
  "run_task (DataAvailable d) s = ondataavailable d s"
| "run_task RecorderStopped s = onstop s"

definition run_pending :: "app \<Rightarrow> app" where
  \<comment> \<open>the browser delivers the queued recorder events, in order\<close>
  "run_pending s = fold run_task (pending s) (s\<lparr>pending := []\<rparr>)"

definition setupAudioRecording :: "env \<Rightarrow> app \<Rightarrow> bool \<times> app" where
  "setupAudioRecording e s =
     (let s1 = s\<lparr>recordingError := [], audioUrl := None, audioChunks := []\<rparr>;
          failed = (\<lambda>s'. (False, s'\<lparr>recordingError :=
                       ''Audio recording not available. Using fallback audio.''\<rparr>))
      in if \<not> hasMediaDevices e then failed s1
         else if \<not> micGranted e then failed s1
         else let s2 = s1\<lparr>streamLive := Some True\<rparr>
              in if \<not> webmSupported e then failed s2
                 else (True, s2\<lparr>mediaRecorder := Some \<lparr>rstate = Inactive, gathered = []\<rparr>\<rparr>))"

subsection \<open>Fallback audio\<close>

definition generateFallbackAudio :: "env \<Rightarrow> jsstring \<Rightarrow> app \<Rightarrow> app" where
  \<comment> \<open>\<open>text\<close> is the text of the render in which \<open>speak\<close> ran. No statement of the \<open>try\<close>
      block throws (the promise never rejects), so the \<open>catch\<close> of lines 348 to 353 has no
      branch here\<close>
  "generateFallbackAudio e txt s = s\<lparr>audioUrl := Some (generateHighQualityAudio e txt)\<rparr>"

subsection \<open>speak and the utterance handlers\<close>

definition synth_cancel :: "app \<Rightarrow> app" where
  \<comment> \<open>\<open>speechSynthesis.cancel()\<close>: the queue is emptied and speaking ceases\<close>
  "synth_cancel s = s\<lparr>synth_speaking := False, synth_paused := False\<rparr>"

definition speak :: "env \<Rightarrow> app \<Rightarrow> app" where
  \<comment> \<open>no statement of the \<open>try\<close> block of lines 258 to 332 throws (setupAudioRecording catches
      its own errors), so the \<open>catch\<close> of lines 333 to 339 has no branch here\<close>
  "speak e s =
     (if trim (inputText s) = [] then s\<lparr>alerts := alerts s @ [''Please enter some text to speak.'']\<rparr>
      else
        let s1 = (if synth_speaking s then synth_cancel s else s);
            s2 = s1\<lparr>audioUrl := None\<rparr>;
            s3 = s2\<lparr>isProcessing := True, recordingError := []\<rparr>;
            (ready, s4) = setupAudioRecording e s3;
            utterance = \<lparr>utext = inputText s, uvoice = selectedVoice s, urate = rate s,
                         upitch = pitch s, uvolume = volume s,
                         recordingReady = ready, recordingStarted = False\<rparr>
        in s4\<lparr>utteranceRef := Some utterance, synth_speaking := True,
               synth_spoken := synth_spoken s4 @ [utterance]\<rparr>)"

definition onstart :: "env \<Rightarrow> utterance \<Rightarrow> app \<Rightarrow> app" where
  "onstart e u s =
     (let s1 = s\<lparr>isSpeaking := True, isPaused := False\<rparr>
      in (case mediaRecorder s1 of
            Some r \<Rightarrow>
              if recordingReady u \<and> rstate r = Inactive
              then (let s2 = s1\<lparr>isRecording := True\<rparr>
                    in (case recorder_start e r of
                          Some r' \<Rightarrow> s2\<lparr>mediaRecorder := Some r',
                                        utteranceRef := Some (u\<lparr>recordingStarted := True\<rparr>)\<rparr>
                        | None \<Rightarrow> s2\<lparr>utteranceRef := Some (u\<lparr>recordingStarted := False\<rparr>)\<rparr>))
              else s1
          | None \<Rightarrow> s1))"

definition onend :: "env \<Rightarrow> utterance \<Rightarrow> app \<Rightarrow> app" where
  "onend e u s =
     (let s1 = s\<lparr>isSpeaking := False, isPaused := False, isProcessing := False\<rparr>
      in (case mediaRecorder s1 of
            Some r \<Rightarrow>
              if recordingStarted u \<and> rstate r = Recording
              then (case recorder_stop r of
                      Some (r', tasks) \<Rightarrow> s1\<lparr>mediaRecorder := Some r', pending := pending s1 @ tasks\<rparr>
                    | None \<Rightarrow> generateFallbackAudio e (utext u) s1)
              else generateFallbackAudio e (utext u) s1
          | None \<Rightarrow> generateFallbackAudio e (utext u) s1))"

definition onerror :: "env \<Rightarrow> utterance \<Rightarrow> app \<Rightarrow> app" where
  "onerror e u s =
     generateFallbackAudio e (utext u) (s\<lparr>isSpeaking := False, isPaused := False, isProcessing := False\<rparr>)"

datatype engine_event = PlaybackStarted | PlaybackEnded | PlaybackError

definition deliver :: "env \<Rightarrow> engine_event \<Rightarrow> app \<Rightarrow> app" where
  \<comment> \<open>the engine fires an event of the current utterance; after the end or an error of its
      only utterance the engine is no longer speaking\<close>
  "deliver e ev s =
     (case utteranceRef s of
        None \<Rightarrow> s
      | Some u \<Rightarrow>
          (case ev of
             PlaybackStarted \<Rightarrow> onstart e u s
           | PlaybackEnded \<Rightarrow> onend e u (s\<lparr>synth_speaking := False, synth_paused := False\<rparr>)
           | PlaybackError \<Rightarrow> onerror e u (s\<lparr>synth_speaking := False, synth_paused := False\<rparr>)))"

subsection \<open>pause, resume, stop, clear, download\<close>

definition pause :: "app \<Rightarrow> app" where
  "pause s = (if synth_speaking s \<and> \<not> isPaused s then s\<lparr>synth_paused := True, isPaused := True\<rparr> else s)"

definition resume :: "app \<Rightarrow> app" where
  "resume s = (if synth_speaking s \<and> isPaused s then s\<lparr>synth_paused := False, isPaused := False\<rparr> else s)"

definition stop :: "app \<Rightarrow> app option" where
  \<comment> \<open>\<open>None\<close>: an exception leaves the handler (the call of \<open>mediaRecorder.stop()\<close> is not
      inside a \<open>try\<close>)\<close>
  "stop s =
     (if synth_speaking s
      then (let s1 = (synth_cancel s)\<lparr>isSpeaking := False, isPaused := False, isProcessing := False\<rparr>
            in (case mediaRecorder s1 of
                  Some r \<Rightarrow>
                    if rstate r = Recording
                    then (case recorder_stop r of
                            Some (r', tasks) \<Rightarrow>
                              Some (s1\<lparr>mediaRecorder := Some r', pending := pending s1 @ tasks\<rparr>)
                          | None \<Rightarrow> None)
                    else Some (s1\<lparr>isRecording := False\<rparr>)
                | None \<Rightarrow> Some (s1\<lparr>isRecording := False\<rparr>)))
      else Some s)"

definition handleClear :: "app \<Rightarrow> app option" where
  "handleClear s =
     stop (s\<lparr>inputText := []\<rparr>) \<bind> (\<lambda>s1. Some (s1\<lparr>recordingError := [], audioUrl := None\<rparr>))"

definition downloadAudio :: "env \<Rightarrow> app \<Rightarrow> app" where
  \<comment> \<open>the link is named \<open>speech-<now>.wav\<close>; the DOM calls of the \<open>try\<close> block do not throw\<close>
  "downloadAudio e s =
     (case audioUrl s of
        None \<Rightarrow> s\<lparr>alerts := alerts s @ [''No audio available to download. Please generate speech first.'']\<rparr>
      | Some b \<Rightarrow> s\<lparr>downloads := downloads s @ [(b, now e)]\<rparr>)"

subsection \<open>The controls\<close>

text \<open>
  The three sliders are \<open>input type="range"\<close> elements with \<open>min\<close> and \<open>max\<close> (lines 649 to 698):
  whatever position the user asks for, the element keeps its value between \<open>min\<close> and \<open>max\<close>
  (it also snaps the value to the step, which only narrows the set of values), and the
  handler stores \<open>parseFloat\<close> of the value's decimal string. The buttons are rendered, or
  enabled, as the JSX says: the speak button is disabled while processing, pause, resume and
  stop exist only while speaking, and the download button only with an artifact.
\<close>

definition range_value :: "rat \<Rightarrow> rat \<Rightarrow> rat \<Rightarrow> rat" where
  \<comment> \<open>the value of a range input with the given \<open>min\<close> and \<open>max\<close> when asked for \<open>x\<close>\<close>
  "range_value lo hi x = max lo (min hi x)"

definition parseFloat :: "rat \<Rightarrow> rat" where
  \<comment> \<open>the binary64 value nearest to the decimal\<close>
  "parseFloat d = fl d"

definition rate_onChange :: "rat \<Rightarrow> app \<Rightarrow> app" where
  "rate_onChange x s = s\<lparr>rate := parseFloat (range_value (1 / 2) 2 x)\<rparr>"

definition pitch_onChange :: "rat \<Rightarrow> app \<Rightarrow> app" where
  "pitch_onChange x s = s\<lparr>pitch := parseFloat (range_value (1 / 2) 2 x)\<rparr>"

definition volume_onChange :: "rat \<Rightarrow> app \<Rightarrow> app" where
  "volume_onChange x s = s\<lparr>volume := parseFloat (range_value 0 1 x)\<rparr>"

datatype ui_event =
    TypeText jsstring | SlideRate rat | SlidePitch rat | SlideVolume rat
  | ChooseVoice "string option"
  | ClickSpeak | ClickPause | ClickResume | ClickStop | ClickClear | ClickDownload
  | Engine engine_event | AudioIn "byte list" | RecorderEvents

fun step :: "env \<Rightarrow> ui_event \<Rightarrow> app \<Rightarrow> app" where
  "step e (TypeText t) s = s\<lparr>inputText := t\<rparr>"
| "step e (SlideRate x) s = rate_onChange x s"
| "step e (SlidePitch x) s = pitch_onChange x s"
| "step e (SlideVolume x) s = volume_onChange x s"
| "step e (ChooseVoice v) s = s\<lparr>selectedVoice := v\<rparr>"
| "step e ClickSpeak s = (if isProcessing s then s else speak e s)"
| "step e ClickPause s = (if isSpeaking s \<and> \<not> isPaused s then pause s else s)"
| "step e ClickResume s = (if isSpeaking s \<and> isPaused s then resume s else s)"
| "step e ClickStop s = (if isSpeaking s then (case stop s of Some s' \<Rightarrow> s' | None \<Rightarrow> s) else s)"
| "step e ClickClear s = (case handleClear s of Some s' \<Rightarrow> s' | None \<Rightarrow> s)"
| "step e ClickDownload s = (if audioUrl s \<noteq> None then downloadAudio e s else s)"
| "step e (Engine ev) s = deliver e ev s"
| "step e (AudioIn d) s = audio_captured d s"
| "step e RecorderEvents s = run_pending s"

fun run :: "(env \<times> ui_event) list \<Rightarrow> app \<Rightarrow> app" where
  "run [] s = s"
| "run ((e, ev) # evs) s = run evs (step e ev s)"

subsection \<open>The lifecycle of the specification\<close>

definition idle :: "app \<Rightarrow> bool" where
  \<comment> \<open>the Idle state of the playback lifecycle: not speaking, not paused, not processing\<close>
  "idle s \<longleftrightarrow> \<not> isSpeaking s \<and> \<not> isPaused s \<and> \<not> isProcessing s"

section \<open>The container format and the other notions of the specification\<close>

text \<open>
  These definitions follow the words of the specification, not the code: the canonical
  44-byte header and its decoder, little-endian fields, words separated by whitespace, the
  clamp of a parameter to its range, and the artifact a capture session holds.
\<close>

definition ascii :: "string \<Rightarrow> byte list" where
  "ascii s = map of_char s"

definition le16 :: "nat \<Rightarrow> byte list" where
  "le16 v = [of_nat v, of_nat (v div 2 ^ 8)]"

definition le32 :: "nat \<Rightarrow> byte list" where
  "le32 v = [of_nat v, of_nat (v div 2 ^ 8), of_nat (v div 2 ^ 16), of_nat (v div 2 ^ 24)]"

definition int16_le :: "int \<Rightarrow> byte list" where
  "int16_le v = (let w = (word_of_int v :: 16 word) in [ucast w, ucast (drop_bit 8 w)])"

definition canonical_header :: "nat \<Rightarrow> nat \<Rightarrow> nat \<Rightarrow> byte list" where
  "canonical_header sr ch dataBytes =
     ascii ''RIFF'' @ le32 (36 + dataBytes) @ ascii ''WAVE'' @
     ascii ''fmt '' @ le32 16 @ le16 1 @ le16 ch @ le32 sr @ le32 (sr * ch * 2) @ le16 (ch * 2) @ le16 16 @
     ascii ''data'' @ le32 dataBytes"

definition rd16 :: "byte list \<Rightarrow> nat \<Rightarrow> nat" where
  "rd16 bs off = unat (bs ! off) + 2 ^ 8 * unat (bs ! (off + 1))"

definition rd32 :: "byte list \<Rightarrow> nat \<Rightarrow> nat" where
  "rd32 bs off = unat (bs ! off) + 2 ^ 8 * unat (bs ! (off + 1)) + 2 ^ 16 * unat (bs ! (off + 2))
     + 2 ^ 24 * unat (bs ! (off + 3))"

record wav_format =
  fmtSampleRate :: nat
  fmtChannels :: nat
  fmtBitsPerSample :: nat
  fmtDataBytes :: nat

definition decode_header :: "byte list \<Rightarrow> wav_format option" where
  "decode_header bs =
     (if 44 \<le> length bs \<and> take 4 bs = ascii ''RIFF'' \<and> take 4 (drop 8 bs) = ascii ''WAVE''
         \<and> take 4 (drop 12 bs) = ascii ''fmt '' \<and> rd32 bs 16 = 16 \<and> rd16 bs 20 = 1
         \<and> take 4 (drop 36 bs) = ascii ''data''
      then Some \<lparr>fmtSampleRate = rd32 bs 24, fmtChannels = rd16 bs 22,
                  fmtBitsPerSample = rd16 bs 34, fmtDataBytes = rd32 bs 40\<rparr>
      else None)"

fun join_space :: "jsstring list \<Rightarrow> jsstring" where
  "join_space [] = []"
| "join_space [w] = w"
| "join_space (w # v # ws) = w @ space # join_space (v # ws)"

fun words_from :: "jsstring \<Rightarrow> jsstring \<Rightarrow> jsstring list" where
  \<comment> \<open>the maximal runs of non-whitespace code units, \<open>w\<close> being the run read so far\<close>
  "words_from w [] = (if w = [] then [] else [w])"
| "words_from w (c # cs) =
     (if is_js_whitespace c then (if w = [] then words_from [] cs else w # words_from [] cs)
      else words_from (w @ [c]) cs)"

definition words_ws :: "jsstring \<Rightarrow> jsstring list" where
  "words_ws s = words_from [] s"

definition spec_wordCount :: "jsstring \<Rightarrow> nat" where
  \<comment> \<open>a text of no words counts as one slice\<close>
  "spec_wordCount s = (if words_ws s = [] then 1 else length (words_ws s))"

definition spec_sampleCount :: "jsstring \<Rightarrow> int" where
  \<comment> \<open>round(duration \<times> sampleRate)\<close>
  "spec_sampleCount s = round (js_mul sampleRate (duration s))"

definition clamp :: "rat \<Rightarrow> rat \<Rightarrow> rat \<Rightarrow> rat" where
  "clamp lo hi x = max lo (min hi x)"

definition in_ranges :: "rat \<Rightarrow> rat \<Rightarrow> rat \<Rightarrow> bool" where
  \<comment> \<open>the declared ranges of rate, pitch and volume\<close>
  "in_ranges r p v \<longleftrightarrow> 1 / 2 \<le> r \<and> r \<le> 2 \<and> 1 / 2 \<le> p \<and> p \<le> 2 \<and> 0 \<le> v \<and> v \<le> 1"

definition handed_in_ranges :: "utterance \<Rightarrow> bool" where
  \<comment> \<open>an utterance whose parameters are within their ranges, that is, equal to their clamps\<close>
  "handed_in_ranges u \<longleftrightarrow>
     in_ranges (urate u) (upitch u) (uvolume u)
     \<and> urate u = clamp (1 / 2) 2 (urate u) \<and> upitch u = clamp (1 / 2) 2 (upitch u)
     \<and> uvolume u = clamp 0 1 (uvolume u)"

definition settings_ok :: "app \<Rightarrow> bool" where
  "settings_ok s \<longleftrightarrow> in_ranges (rate s) (pitch s) (volume s) \<and> list_all handed_in_ranges (synth_spoken s)"

definition capture_recording :: "app \<Rightarrow> bool" where
  "capture_recording s = (case mediaRecorder s of Some r \<Rightarrow> rstate r = Recording | None \<Rightarrow> False)"

definition captured_artifact :: "app \<Rightarrow> blob" where
  \<comment> \<open>the chunks already delivered, then the data the recorder still holds\<close>
  "captured_artifact s =
     \<lparr>bytes = concat (audioChunks s) @ (case mediaRecorder s of Some r \<Rightarrow> gathered r | None \<Rightarrow> []),
      mime = ''audio/webm''\<rparr>"

subsection \<open>Sample platforms and states\<close>

definition host :: env where
  \<comment> \<open>a platform that grants everything; its sine is flat and its noise centred\<close>
  "host = \<lparr>random = (\<lambda>k. 1 / 2), msin = (\<lambda>x. 0), alloc_ok = (\<lambda>n. True), hasMediaDevices = True,
     micGranted = True, webmSupported = True, startable = True, now = 0\<rparr>"

definition host_no_memory :: env where
  "host_no_memory = host\<lparr>alloc_ok := (\<lambda>n. False)\<rparr>"

definition host_no_microphone :: env where
  "host_no_microphone = host\<lparr>micGranted := False\<rparr>"

definition typed :: "string \<Rightarrow> app" where
  \<comment> \<open>the user has typed \<open>s\<close> into the text area of a freshly mounted component\<close>
  "typed s = initial\<lparr>inputText := js s\<rparr>"

definition speaking_hi :: app where
  \<comment> \<open>"Hi" submitted on \<open>host\<close>, playback started, three bytes of audio captured so far\<close>
  "speaking_hi = audio_captured [1, 2, 3] (deliver host PlaybackStarted (speak host (typed ''Hi'')))"

definition speaking_hi_no_capture :: app where
  \<comment> \<open>"Hi" submitted where the microphone is denied, playback started\<close>
  "speaking_hi_no_capture
     = deliver host_no_microphone PlaybackStarted (speak host_no_microphone (typed ''Hi''))"

definition slider_demo :: "(env \<times> ui_event) list" where
  \<comment> \<open>"Hi" typed, the three sliders asked for values outside their ranges, then speak\<close>
  "slider_demo = [(host, TypeText (js ''Hi'')), (host, SlideRate 5), (host, SlidePitch (1 / 10)),
                  (host, SlideVolume (- 3)), (host, ClickSpeak)]"

section \<open>Binary64 rounding\<close>

lemma rne_le: "t \<le> of_int K \<Longrightarrow> rne t \<le> K"
proof -
  assume h: "t \<le> of_int K"
  have f: "\<lfloor>t\<rfloor> \<le> K" using h by (simp add: floor_le_iff) 
  show ?thesis
  proof (cases "t - of_int \<lfloor>t\<rfloor> < 1 / 2")
    case True
    then show ?thesis using f by (simp add: rne_def Let_def)
  next
    case False
    then have "of_int \<lfloor>t\<rfloor> < t" by linarith
    then have "of_int \<lfloor>t\<rfloor> < (of_int K :: rat)" using h by linarith
    then have "\<lfloor>t\<rfloor> < K" by simp
    then show ?thesis by (simp add: rne_def Let_def)
  qed
qed

lemma rne_ge: "of_int K \<le> t \<Longrightarrow> K \<le> rne t"
proof -
  assume h: "of_int K \<le> t"
  have f: "K \<le> \<lfloor>t\<rfloor>" using h by (simp add: le_floor_iff)
  then show ?thesis by (simp add: rne_def Let_def)
qed

lemma ilog2_le_52: "0 < a \<Longrightarrow> a < 2 ^ 53 \<Longrightarrow> ilog2 a \<le> 52"
proof (cases "1 \<le> a")
  case True
  assume "a < 2 ^ 53"
  then have "\<lfloor>a\<rfloor> < 2 ^ 53" by (simp add: floor_less_iff)
  then have "bitlen \<lfloor>a\<rfloor> \<le> 53" by (simp add: bitlen_le_iff_power)
  then show ?thesis using True by (simp add: ilog2_def)
next
  case False
  have "0 \<le> bitlen (\<lceil>1 / a\<rceil> - 1)" by (rule bitlen_nonneg)
  then show ?thesis using False by (simp add: ilog2_def)
qed

lemma pow2_pos: "0 < pow2 k"
  by (simp add: pow2_def)

lemma fl_nonneg: "0 \<le> x \<Longrightarrow> 0 \<le> fl x"
proof (cases "x = 0")
  case True
  then show ?thesis by (simp add: fl_def)
next
  case False
  assume "0 \<le> x"
  then have x: "0 < x" using False by simp
  let ?q = "pow2 (max (ilog2 \<bar>x\<bar>) (- 1022) - 52)"
  have "of_int 0 \<le> \<bar>x\<bar> / ?q" using pow2_pos [of "max (ilog2 \<bar>x\<bar>) (- 1022) - 52"] by simp
  then have "0 \<le> rne (\<bar>x\<bar> / ?q)" by (rule rne_ge)
  then have "0 \<le> (of_int (rne (\<bar>x\<bar> / ?q)) :: rat) * ?q"
    using pow2_pos [of "max (ilog2 \<bar>x\<bar>) (- 1022) - 52"] by simp
  then show ?thesis using x by (simp add: fl_def Let_def)
qed


text \<open>
  The rounding is the one of IEEE 754: \<open>ilog2\<close> is the binary exponent, the result of \<open>fl\<close> is
  within half a unit in the last place of its argument, and in the normal range it is a
  significand of 53 bits times a power of two.
\<close>

lemma rne_error: "\<bar>of_int (rne t) - t\<bar> \<le> 1 / 2"
proof -
  have "of_int \<lfloor>t\<rfloor> \<le> t" "t < of_int \<lfloor>t\<rfloor> + 1" by linarith+
  then show ?thesis by (auto simp: rne_def Let_def abs_le_iff) 
qed

lemma fl_error: "\<bar>fl x - x\<bar> \<le> pow2 (max (ilog2 \<bar>x\<bar>) (- 1022) - 52) / 2"
proof (cases "x = 0")
  case True
  then show ?thesis using pow2_pos [of "max (ilog2 \<bar>x\<bar>) (- 1022) - 52"] by (simp add: fl_def)
next
  case False
  let ?q = "pow2 (max (ilog2 \<bar>x\<bar>) (- 1022) - 52)"
  have q: "0 < ?q" by (rule pow2_pos)
  have fx: "fl x = sgn x * (of_int (rne (\<bar>x\<bar> / ?q)) * ?q)"
    using False by (simp add: fl_def Let_def mult.assoc)
  have "sgn x * (of_int (rne (\<bar>x\<bar> / ?q)) * ?q - \<bar>x\<bar>)
        = sgn x * (of_int (rne (\<bar>x\<bar> / ?q)) * ?q) - sgn x * \<bar>x\<bar>"
    by (rule right_diff_distrib)
  also have "\<dots> = fl x - x" unfolding fx by (simp only: sgn_mult_abs)
  finally have "\<bar>fl x - x\<bar> = \<bar>sgn x * (of_int (rne (\<bar>x\<bar> / ?q)) * ?q - \<bar>x\<bar>)\<bar>"
    by simp
  also have "\<dots> = \<bar>of_int (rne (\<bar>x\<bar> / ?q)) * ?q - \<bar>x\<bar>\<bar>"
    using False by (simp add: abs_mult abs_sgn_eq)
  also have "\<dots> = \<bar>of_int (rne (\<bar>x\<bar> / ?q)) - \<bar>x\<bar> / ?q\<bar> * ?q"
  proof -
    have "of_int (rne (\<bar>x\<bar> / ?q)) * ?q - \<bar>x\<bar> = (of_int (rne (\<bar>x\<bar> / ?q)) - \<bar>x\<bar> / ?q) * ?q"
      using q by (simp add: field_simps)
    then show ?thesis using q by (simp add: abs_mult)
  qed
  also have "\<dots> \<le> (1 / 2) * ?q"
    using rne_error [of "\<bar>x\<bar> / ?q"] q by (intro mult_right_mono) simp_all
  finally show ?thesis by simp
qed

lemma ilog2_bounds:
  assumes "0 < a"
  shows "pow2 (ilog2 a) \<le> a \<and> a < pow2 (ilog2 a + 1)"
proof (cases "1 \<le> a")
  case True
  define m where "m = \<lfloor>a\<rfloor>"
  have m: "1 \<le> m" "of_int m \<le> a" "a < of_int m + 1"
    unfolding m_def using True by (simp_all add: le_floor_iff) linarith+
  have b: "2 ^ nat (bitlen m - 1) \<le> m" "m < 2 ^ nat (bitlen m)"
    using bitlen_bounds [of m] m(1) by simp_all
  have p: "1 \<le> bitlen m" using m(1) by (simp add: bitlen_ge_iff_power)
  have "(of_int (2 ^ nat (bitlen m - 1)) :: rat) \<le> of_int m"
    using b(1) by (simp only: of_int_le_iff)
  then have lo: "(2::rat) ^ nat (bitlen m - 1) \<le> of_int m" by simp
  have "m + 1 \<le> 2 ^ nat (bitlen m)" using b(2) by simp
  then have "(of_int (m + 1) :: rat) \<le> of_int (2 ^ nat (bitlen m))" by (simp only: of_int_le_iff)
  then have hi: "of_int m + 1 \<le> (2::rat) ^ nat (bitlen m)" by simp
  have e: "ilog2 a = bitlen m - 1" using True by (simp add: ilog2_def m_def)
  have p1: "pow2 (bitlen m - 1) = 2 ^ nat (bitlen m - 1)" using p by (simp add: pow2_def)
  have p2: "pow2 (bitlen m - 1 + 1) = 2 ^ nat (bitlen m)" using p by (simp add: pow2_def)
  have "pow2 (bitlen m - 1) \<le> a" unfolding p1 using lo m(2) by linarith
  moreover have "a < pow2 (bitlen m - 1 + 1)" unfolding p2 using hi m(3) by linarith
  ultimately show ?thesis unfolding e by blast
next
  case False
  define y where "y = 1 / a"
  define m where "m = \<lceil>y\<rceil> - 1"
  have y: "1 < y" using False assms by (simp add: y_def)
  have m: "1 \<le> m" "of_int m < y" "y \<le> of_int m + 1"
    unfolding m_def using y by (simp_all add: less_ceiling_iff) linarith+
  obtain j where j: "j = bitlen m" by simp
  have b: "2 ^ nat (j - 1) \<le> m" "m < 2 ^ nat j"
    using bitlen_bounds [of m] m(1) j by simp_all
  have p: "1 \<le> j" using m(1) j by (simp add: bitlen_ge_iff_power)
  have "(of_int (2 ^ nat (j - 1)) :: rat) \<le> of_int m"
    using b(1) by (simp only: of_int_le_iff)
  then have lo: "(2::rat) ^ nat (j - 1) \<le> of_int m" by simp
  have "m + 1 \<le> 2 ^ nat j" using b(2) by simp
  then have "(of_int (m + 1) :: rat) \<le> of_int (2 ^ nat j)" by (simp only: of_int_le_iff)
  then have hi: "of_int m + 1 \<le> (2::rat) ^ nat j" by simp
  have e: "ilog2 a = - j" using False by (simp add: ilog2_def m_def y_def j)
  have y1: "y \<le> 2 ^ nat j" using m(3) hi by linarith
  have y2: "2 ^ nat (j - 1) < y" using m(2) lo by linarith
  have a: "a = 1 / y" using assms by (simp add: y_def)
  have l: "1 / 2 ^ nat j \<le> a"
    unfolding a using y y1 by (simp add: field_simps)
  have u: "a < 1 / 2 ^ nat (j - 1)"
    unfolding a using y y2 by (simp add: field_simps)
  have n: "nat (j - 1) = nat (- (1 - j))" by simp
  have p1: "pow2 (- j) = 1 / 2 ^ nat j" using p by (simp add: pow2_def)
  have p2: "pow2 (- j + 1) = 1 / 2 ^ nat (j - 1)"
  proof (cases "j = 1")
    case True
    then show ?thesis by (simp add: pow2_def)
  next
    case False
    then have "- j + 1 < 0" using p by simp
    moreover have "nat (- (- j + 1)) = nat (j - 1)" by simp
    ultimately show ?thesis by (simp add: pow2_def)
  qed
  show ?thesis unfolding e p1 p2 using l u by blast
qed


lemma pow2_powi: "pow2 k = 2 powi k"
  by (simp add: pow2_def power_int_def field_simps)

lemma pow2_add: "pow2 (a + b) = pow2 a * pow2 b"
  by (simp add: pow2_powi power_int_add)

lemma fl_significand:
  assumes "pow2 (- 1022) \<le> \<bar>x\<bar>"
  shows "\<exists>n. fl x = sgn x * of_int n * pow2 (ilog2 \<bar>x\<bar> - 52) \<and> 2 ^ 52 \<le> n \<and> n \<le> 2 ^ 53"
proof -
  have x: "0 < \<bar>x\<bar>" using assms pow2_pos [of "- 1022"] by linarith
  define e where "e = ilog2 \<bar>x\<bar>"
  define q where "q = pow2 (e - 52)"
  have b: "pow2 e \<le> \<bar>x\<bar>" "\<bar>x\<bar> < pow2 (e + 1)"
    using ilog2_bounds [OF x] by (simp_all add: e_def)
  have e: "- 1022 \<le> e"
  proof (rule ccontr)
    assume "\<not> - 1022 \<le> e"
    then have "e + 1 \<le> - 1022" by simp
    then have "(2::rat) powi (e + 1) \<le> 2 powi (- 1022)" by (intro power_int_increasing) simp_all
    then show False using b(2) assms by (simp add: pow2_powi)
  qed
  have q: "0 < q" unfolding q_def by (rule pow2_pos)
  have "pow2 e = pow2 52 * q" unfolding q_def using pow2_add [of 52 "e - 52"] by simp
  then have l: "2 ^ 52 * q \<le> \<bar>x\<bar>" using b(1) by (simp add: pow2_def)
  have "e + 1 = 53 + (e - 52)" by simp
  then have "pow2 (e + 1) = pow2 53 * q" unfolding q_def by (simp only: pow2_add)
  then have u: "\<bar>x\<bar> < 2 ^ 53 * q" using b(2) by (simp add: pow2_def)
  have "of_int (2 ^ 52) \<le> \<bar>x\<bar> / q" using l q by (simp add: le_divide_eq)
  then have n1: "2 ^ 52 \<le> rne (\<bar>x\<bar> / q)" by (rule rne_ge)
  have "\<bar>x\<bar> / q \<le> of_int (2 ^ 53)" using u q by (simp add: divide_le_eq)
  then have n2: "rne (\<bar>x\<bar> / q) \<le> 2 ^ 53" by (rule rne_le)
  have "max e (- 1022) = e" using e by simp
  then have "fl x = sgn x * of_int (rne (\<bar>x\<bar> / q)) * q"
    using x unfolding q_def e_def by (simp add: fl_def Let_def)
  then show ?thesis using n1 n2 unfolding q_def e_def by blast
qed

lemma fl_pos_grid:
  assumes "0 < x" "x < 2 ^ 53"
  obtains n where "fl x = of_int (rne (x * 2 ^ n)) / 2 ^ n"
proof -
  have e: "max (ilog2 x) (- 1022) - 52 \<le> 0" using ilog2_le_52 [OF assms] by simp
  define n where "n = nat (- (max (ilog2 \<bar>x\<bar>) (- 1022) - 52))"
  have "pow2 (max (ilog2 \<bar>x\<bar>) (- 1022) - 52) = 1 / 2 ^ n"
  proof (cases "max (ilog2 x) (- 1022) - 52 = 0")
    case True
    then show ?thesis using assms by (simp add: pow2_def n_def)
  next
    case False
    then show ?thesis using e assms by (simp add: pow2_def n_def)
  qed
  then have "fl x = of_int (rne (x * 2 ^ n)) / 2 ^ n"
    using assms by (simp add: fl_def Let_def)
  then show ?thesis using that by blast
qed

lemma fl_le_int: 
  assumes "0 < x" "x < 2 ^ 53" "x \<le> of_int M"
  shows "fl x \<le> of_int M"
proof -
  obtain n where n: "fl x = of_int (rne (x * 2 ^ n)) / 2 ^ n"
    using fl_pos_grid [OF assms(1,2)] by blast
  have "x * 2 ^ n \<le> of_int (M * 2 ^ n)" using assms(3) by simp
  then have "rne (x * 2 ^ n) \<le> M * 2 ^ n" by (rule rne_le)
  then have "(of_int (rne (x * 2 ^ n)) :: rat) \<le> of_int (M * 2 ^ n)" by (simp only: of_int_le_iff)
  then have "(of_int (rne (x * 2 ^ n)) :: rat) / 2 ^ n \<le> of_int M"
    by (simp add: divide_le_eq)
  then show ?thesis using n by simp
qed

lemma fl_ge_int: 
  assumes "0 < x" "x < 2 ^ 53" "of_int M \<le> x"
  shows "of_int M \<le> fl x"
proof -
  obtain n where n: "fl x = of_int (rne (x * 2 ^ n)) / 2 ^ n"
    using fl_pos_grid [OF assms(1,2)] by blast
  have "of_int (M * 2 ^ n) \<le> x * 2 ^ n" using assms(3) by simp
  then have "M * 2 ^ n \<le> rne (x * 2 ^ n)" by (rule rne_ge)
  then have "(of_int (M * 2 ^ n) :: rat) \<le> of_int (rne (x * 2 ^ n))" by (simp only: of_int_le_iff)
  then have "of_int M \<le> (of_int (rne (x * 2 ^ n)) :: rat) / 2 ^ n"
    by (simp add: le_divide_eq)
  then show ?thesis using n by simp
qed

lemma ilog2_le_1: "0 < a \<Longrightarrow> a < 4 \<Longrightarrow> ilog2 a \<le> 1"
proof (cases "1 \<le> a")
  case True
  assume "a < 4"
  then have "\<lfloor>a\<rfloor> < 2 ^ 2" by (simp add: floor_less_iff)
  then have "bitlen \<lfloor>a\<rfloor> \<le> 2" by (simp add: bitlen_le_iff_power)
  then show ?thesis using True by (simp add: ilog2_def)
next
  case False
  have "0 \<le> bitlen (\<lceil>1 / a\<rceil> - 1)" by (rule bitlen_nonneg)
  then show ?thesis using False by (simp add: ilog2_def)
qed

lemma fl_ge_half:
  assumes "1 / 2 \<le> x" "x < 4"
  shows "1 / 2 \<le> fl x"
proof -
  have x: "0 < x" using assms by simp
  define k where "k = max (ilog2 \<bar>x\<bar>) (- 1022) - 52"
  have k: "k \<le> - 51" using ilog2_le_1 [OF x assms(2)] x by (simp add: k_def)
  define n where "n = nat (- k) - 1"
  have nk: "nat (- k) = Suc n" using k by (simp add: n_def)
  have q: "pow2 k = 1 / 2 ^ Suc n" using k nk by (simp add: pow2_def)
  have f: "fl x = of_int (rne (x * 2 ^ Suc n)) / 2 ^ Suc n"
    using x q unfolding k_def by (simp add: fl_def Let_def)
  have "of_int (2 ^ n) \<le> x * 2 ^ Suc n" using assms(1) by simp
  then have "2 ^ n \<le> rne (x * 2 ^ Suc n)" by (rule rne_ge)
  then have "(of_int (2 ^ n) :: rat) \<le> of_int (rne (x * 2 ^ Suc n))" by (simp only: of_int_le_iff)
  then have "(2 ^ n :: rat) \<le> of_int (rne (x * 2 ^ Suc n))" by simp
  then have "1 / 2 \<le> (of_int (rne (x * 2 ^ Suc n)) :: rat) / 2 ^ Suc n"
    by (simp add: le_divide_eq)
  then show ?thesis using f by simp
qed

lemma duration_bounds: "2 \<le> duration text \<and> duration text \<le> 30"
  by (simp add: duration_def Math_max_def Math_min_def)

lemma numSamples_bounds: "44100 \<le> numSamples text \<and> numSamples text \<le> 661500"
proof -
  let ?x = "sampleRate * duration text"
  have d: "2 \<le> duration text" "duration text \<le> 30" using duration_bounds by auto
  have x: "44100 \<le> ?x" "?x \<le> 661500" using d by (simp_all add: sampleRate_def)
  have p: "0 < ?x" "?x < 2 ^ 53" using x by simp_all
  have "of_int 44100 \<le> fl ?x" using fl_ge_int [OF p, of 44100] x by simp
  moreover have "fl ?x \<le> of_int 661500" using fl_le_int [OF p, of 661500] x by simp
  ultimately have "44100 \<le> \<lfloor>fl ?x\<rfloor>" "\<lfloor>fl ?x\<rfloor> \<le> 661500"
    by (simp_all add: le_floor_iff floor_le_iff)
  then have "44100 \<le> nat \<lfloor>fl ?x\<rfloor>" "nat \<lfloor>fl ?x\<rfloor> \<le> 661500"
    by linarith+
  then show ?thesis by (simp only: numSamples_def Math_floor_def js_mul_def)
qed

section \<open>Buffer writes\<close>

lemma setUint8_at: "setUint8 (pre @ a # post) (length pre) v = Some (pre @ word_of_int v # post)"
  by (simp add: setUint8_def)

lemma setUint16_at:
  "setUint16 (pre @ a # b # post) (length pre) v
     = Some (pre @ word_of_int v # word_of_int (v div 2 ^ 8) # post)"
  by (simp add: setUint16_def list_update_append)

lemma setUint32_at:
  "setUint32 (pre @ a # b # c # d # post) (length pre) v
     = Some (pre @ word_of_int v # word_of_int (v div 2 ^ 8) # word_of_int (v div 2 ^ 16)
               # word_of_int (v div 2 ^ 24) # post)"
  by (simp add: setUint32_def list_update_append)

lemma writeString_at:
  "length old = length cs \<Longrightarrow>
   writeString (pre @ old @ post) (length pre) cs = Some (pre @ map (\<lambda>c. word_of_int (uint c)) cs @ post)"
proof (induction cs arbitrary: pre old)
  case Nil
  then show ?case by simp
next
  case (Cons c cs)
  then obtain a old' where old: "old = a # old'" "length old' = length cs"
    by (cases old) auto
  have "writeString ((pre @ [word_of_int (uint c)]) @ old' @ post) (length (pre @ [word_of_int (uint c)])) cs
        = Some ((pre @ [word_of_int (uint c)]) @ map (\<lambda>c. word_of_int (uint c)) cs @ post)"
    using Cons.IH [OF old(2)] by blast
  then show ?case using old by (simp add: setUint8_at)
qed

lemma int16_le_bytes: "int16_le v = [word_of_int v, word_of_int (v div 2 ^ 8)]"
proof -
  have a: "(ucast (word_of_int v :: 16 word) :: 8 word) = word_of_int v"
    by (rule bit_word_eqI) (auto simp: bit_simps)
  have b: "(ucast (drop_bit 8 (word_of_int v :: 16 word)) :: 8 word) = word_of_int (drop_bit 8 v)"
    by (rule bit_word_eqI) (auto simp: bit_simps)
  show ?thesis using a b by (simp add: int16_le_def Let_def drop_bit_eq_div)
qed

lemma unat_byte: "unat (of_nat v :: 8 word) = v mod 256"
  by (simp add: unat_of_nat)

lemma le16_value:
  fixes v :: nat
  assumes "v < 65536"
  shows "v mod 256 + 256 * (v div 256 mod 256) = v"
proof -
  have "v div 256 < 256" using assms by simp
  then show ?thesis by simp
qed

lemma le32_value:
  fixes v :: nat
  assumes "v < 4294967296"
  shows "v mod 256 + 256 * (v div 256 mod 256) + 65536 * (v div 65536 mod 256)
           + 16777216 * (v div 16777216 mod 256) = v"
proof -
  define a where "a = v div 256"
  define b where "b = a div 256"
  define c where "c = b div 256"
  have b: "v div 65536 = b" unfolding b_def a_def by (simp add: div_mult2_eq)
  have c: "v div 16777216 = c" unfolding c_def b_def a_def by (simp add: div_mult2_eq)
  have "c < 256" using assms unfolding c [symmetric] by simp
  then have c': "c mod 256 = c" by simp
  have s1: "v = v mod 256 + 256 * a" unfolding a_def by simp
  have s2: "a = a mod 256 + 256 * b" unfolding b_def by simp
  have s3: "b = b mod 256 + 256 * c" unfolding c_def by simp
  have "v mod 256 + 256 * (a mod 256) + 65536 * (b mod 256) + 16777216 * c = v"
    using s1 s2 s3 by linarith
  then show ?thesis using b c c' a_def by simp
qed

lemma rd32_le32: "v < 2 ^ 32 \<Longrightarrow> rd32 (pre @ le32 v @ post) (length pre) = v"
  using le32_value [of v] by (simp add: rd32_def le32_def nth_append unat_byte)

lemma rd16_le16: "v < 2 ^ 16 \<Longrightarrow> rd16 (pre @ le16 v @ post) (length pre) = v"
  using le16_value [of v] by (simp add: rd16_def le16_def nth_append unat_byte)


lemma word_of_int_nat8: "(word_of_int (int k div 2 ^ j) :: 8 word) = of_nat (k div 2 ^ j)"
proof -
  have "int k div 2 ^ j = int (k div 2 ^ j)" by (simp add: zdiv_int)
  then show ?thesis by simp
qed

lemma le32_int:
  "[word_of_int (int k), word_of_int (int k div 2 ^ 8), word_of_int (int k div 2 ^ 16),
    word_of_int (int k div 2 ^ 24)] = le32 k"
  unfolding le32_def using word_of_int_nat8 [of k 8] word_of_int_nat8 [of k 16] word_of_int_nat8 [of k 24]
  by simp

lemma upd_numeral: "(x # xs)[numeral k := y] = x # xs[pred_numeral k := y]"
  by (simp add: numeral_eq_Suc)

lemma zeros44:
  "replicate 44 (0::byte) = [0, 0, 0, 0, 0, 0, 0, 0, 0, 0, 0, 0, 0, 0, 0, 0, 0, 0, 0, 0, 0, 0,
     0, 0, 0, 0, 0, 0, 0, 0, 0, 0, 0, 0, 0, 0, 0, 0, 0, 0, 0, 0, 0, 0]"
  by (simp add: numeral_eq_Suc)

lemma write_header_bytes:
  "write_header (replicate 44 0 @ rest) n =
     Some ([0x52, 0x49, 0x46, 0x46] @
           [word_of_int (int (36 + 2 * n)), word_of_int (int (36 + 2 * n) div 2 ^ 8),
            word_of_int (int (36 + 2 * n) div 2 ^ 16), word_of_int (int (36 + 2 * n) div 2 ^ 24)] @
           [0x57, 0x41, 0x56, 0x45, 0x66, 0x6D, 0x74, 0x20, 16, 0, 0, 0, 1, 0, 1, 0,
            0x22, 0x56, 0, 0, 0x44, 0xAC, 0, 0, 2, 0, 16, 0, 0x64, 0x61, 0x74, 0x61] @
           [word_of_int (int (2 * n)), word_of_int (int (2 * n) div 2 ^ 8),
            word_of_int (int (2 * n) div 2 ^ 16), word_of_int (int (2 * n) div 2 ^ 24)] @ rest)"
  unfolding zeros44
  by (simp add: write_header_def js_def setUint8_def setUint16_def setUint32_def upd_numeral
        mult.commute)


lemma header_canonical:
  "[0x52, 0x49, 0x46, 0x46] @
           [word_of_int (int (36 + 2 * n)), word_of_int (int (36 + 2 * n) div 2 ^ 8),
            word_of_int (int (36 + 2 * n) div 2 ^ 16), word_of_int (int (36 + 2 * n) div 2 ^ 24)] @
           [0x57, 0x41, 0x56, 0x45, 0x66, 0x6D, 0x74, 0x20, 16, 0, 0, 0, 1, 0, 1, 0,
            0x22, 0x56, 0, 0, 0x44, 0xAC, 0, 0, 2, 0, 16, 0, 0x64, 0x61, 0x74, 0x61] @
           [word_of_int (int (2 * n)), word_of_int (int (2 * n) div 2 ^ 8),
            word_of_int (int (2 * n) div 2 ^ 16), word_of_int (int (2 * n) div 2 ^ 24)]
   = canonical_header 22050 1 (2 * n)"
  unfolding le32_int canonical_header_def
  by (simp add: ascii_def le16_def) (simp add: le32_def)

lemma length_canonical_header: "length (canonical_header sr ch db) = 44"
  by (simp add: canonical_header_def ascii_def le16_def le32_def)

lemma decode_canonical:
  assumes "sr < 2 ^ 32" "ch < 2 ^ 16" "db < 2 ^ 32"
  shows "decode_header (canonical_header sr ch db @ rest)
         = Some \<lparr>fmtSampleRate = sr, fmtChannels = ch, fmtBitsPerSample = 16, fmtDataBytes = db\<rparr>"
proof -
  have a: "sr mod 256 + 256 * (sr div 256 mod 256) + 65536 * (sr div 65536 mod 256)
           + 16777216 * (sr div 16777216 mod 256) = sr"
    using le32_value [of sr] assms by simp
  have b: "db mod 256 + 256 * (db div 256 mod 256) + 65536 * (db div 65536 mod 256)
           + 16777216 * (db div 16777216 mod 256) = db"
    using le32_value [of db] assms by simp
  have c: "ch mod 256 + 256 * (ch div 256 mod 256) = ch"
    using le16_value [of ch] assms by simp
  show ?thesis
    using a b c
    by (simp add: decode_header_def canonical_header_def ascii_def le16_def le32_def rd16_def rd32_def
          unat_byte)
qed


lemma setInt16_at:
  "setInt16 (pre @ a # b # post) (length pre) x = Some ((pre @ int16_le (js_trunc x)) @ post)"
  by (simp add: setInt16_def setUint16_at int16_le_bytes)

lemma fill_samples_at:
  "length pre = off \<Longrightarrow> length rest = 2 * (n - i) \<Longrightarrow>
   fill_samples smp n i off (pre @ rest)
     = Some (pre @ concat (map (\<lambda>k. int16_le (js_trunc (smp k))) [i..<n]))"
proof (induction smp n i off "pre @ rest" arbitrary: pre rest rule: fill_samples.induct)
  case (1 smp n i offset)
  show ?case
  proof (cases "i < n")
    case False
    then show ?thesis using "1.prems" by (simp add: fill_samples.simps [of smp n i])
  next
    case True
    then obtain a b rest' where rest: "rest = a # b # rest'" "length rest' = 2 * (n - (i + 1))"
      using "1.prems"(2) by (cases rest; cases "tl rest") auto
    let ?pre' = "pre @ int16_le (js_trunc (smp i))"
    have st: "setInt16 (pre @ rest) offset (smp i) = Some (?pre' @ rest')"
      using setInt16_at [of pre a b rest' "smp i"] rest "1.prems"(1) by simp
    have len: "length ?pre' = offset + 2"
      using "1.prems"(1) by (simp add: int16_le_bytes)
    have "fill_samples smp n (i + 1) (offset + 2) (?pre' @ rest')
          = Some (?pre' @ concat (map (\<lambda>k. int16_le (js_trunc (smp k))) [i + 1..<n]))"
      using "1.hyps" [OF True st len rest(2)] .
    then show ?thesis
      using True st by (simp add: fill_samples.simps [of smp n i] upt_conv_Cons)
  qed
qed

lemma wav_buffer_ok:
  assumes "alloc_ok e (44 + numSamples text * 2)"
  shows "wav_buffer e text
         = Some (canonical_header 22050 1 (2 * numSamples text)
                 @ concat (map (\<lambda>k. int16_le (js_trunc (sample e text k))) [0..<numSamples text]))"
proof -
  let ?n = "numSamples text"
  have r: "replicate (44 + ?n * 2) (0::byte) = replicate 44 0 @ replicate (2 * ?n) 0"
    by (simp add: replicate_add mult.commute)
  have h: "write_header (replicate 44 0 @ replicate (2 * ?n) 0) ?n
           = Some (canonical_header 22050 1 (2 * ?n) @ replicate (2 * ?n) 0)"
    unfolding write_header_bytes using header_canonical [of ?n] by simp
  have f: "fill_samples (sample e text) ?n 0 44 (canonical_header 22050 1 (2 * ?n) @ replicate (2 * ?n) 0)
           = Some (canonical_header 22050 1 (2 * ?n)
                   @ concat (map (\<lambda>k. int16_le (js_trunc (sample e text k))) [0..<?n]))"
    by (rule fill_samples_at) (simp_all add: length_canonical_header)
  show ?thesis using assms r h f by (simp add: wav_buffer_def new_ArrayBuffer_def)
qed

section \<open>Words and frequencies\<close>

lemma length_split_from: "length (split_from w s) = 1 + count_list s space"
  by (induction s arbitrary: w) auto

lemma split_from_nonempty: "split_from w s \<noteq> []"
  by (induction s arbitrary: w) auto

lemma join_space_Cons: "ws \<noteq> [] \<Longrightarrow> join_space (w # ws) = w @ space # join_space ws"
  by (cases ws) auto

lemma join_split_from: "join_space (split_from w s) = w @ s"
  by (induction s arbitrary: w) (auto simp: join_space_Cons split_from_nonempty)

lemma time_nonneg: "0 \<le> time i"
  by (simp add: time_def js_div_def sampleRate_def fl_nonneg)

lemma duration_pos: "0 < duration text"
  by (simp add: duration_def Math_max_def Math_min_def)

lemma wordDuration_nonneg: "0 \<le> wordDuration text"
  using duration_pos [of "text"] by (simp add: wordDuration_def js_div_def fl_nonneg)

lemma wordIndex_nonneg: "0 \<le> wordIndex text i"
  using time_nonneg [of i] wordDuration_nonneg [of "text"]
  by (simp add: wordIndex_def Math_floor_def js_div_def fl_nonneg)

lemma js_rem_int: "0 \<le> k \<Longrightarrow> js_rem (of_int k) 5 = of_int (k mod 5)"
proof -
  assume k: "0 \<le> k"
  have "\<lfloor>(of_int k :: rat) / 5\<rfloor> = k div 5"
    using floor_divide_of_int_eq [of k 5, where ?'a = rat] by simp
  then have "js_rem (of_int k) 5 = of_int k - 5 * of_int (k div 5)"
    using k by (simp add: js_rem_def js_trunc_def)
  also have "\<dots> = of_int (k - 5 * (k div 5))" by simp
  also have "k - 5 * (k div 5) = k mod 5" by (simp add: minus_mult_div_eq_mod)
  finally show ?thesis .
qed

lemma fl_small:
  "fl 0 = 0" "fl 40 = 40" "fl 80 = 80" "fl 120 = 120" "fl 160 = 160" "fl 200 = 200"
  "fl 240 = 240" "fl 280 = 280"
  by code_simp+

lemma fl_harmonics:
  "fl (5 / 2) = 5 / 2" "fl (7 / 2) = 7 / 2"
  "fl 300 = 300" "fl 400 = 400" "fl 500 = 500" "fl 600 = 600" "fl 700 = 700"
  "fl 420 = 420" "fl 560 = 560" "fl 840 = 840" "fl 980 = 980"
  by code_simp+

lemma mod5_cases: "(k::int) mod 5 = 0 \<or> k mod 5 = 1 \<or> k mod 5 = 2 \<or> k mod 5 = 3 \<or> k mod 5 = 4"
  by presburger

lemma baseFreq_value: "baseFreq text i = of_int (120 + (wordIndex text i mod 5) * 40)"
proof -
  have r: "js_rem (of_int (wordIndex text i)) 5 = of_int (wordIndex text i mod 5)"
    using wordIndex_nonneg by (rule js_rem_int)
  show ?thesis
    using mod5_cases [of "wordIndex text i"] unfolding baseFreq_def r js_add_def js_mul_def
    by (auto simp: fl_small)
qed

lemma harmonic2: "js_mul (baseFreq text i) (lit (25 / 10)) = baseFreq text i * (5 / 2)"
  using mod5_cases [of "wordIndex text i"] unfolding baseFreq_value js_mul_def lit_def
  by (auto simp: fl_harmonics)

lemma harmonic3: "js_mul (baseFreq text i) (lit (35 / 10)) = baseFreq text i * (7 / 2)"
  using mod5_cases [of "wordIndex text i"] unfolding baseFreq_value js_mul_def lit_def
  by (auto simp: fl_harmonics)

section \<open>Duration and sample count (claim C2)\<close>

lemma length_hello: "length (js ''Hello there friend'') = 18"
  by (simp add: js_def)

lemma duration_hello: "duration (js ''Hello there friend'') = 6079859496950169 / 2 ^ 51"
proof -
  have "duration (js ''Hello there friend'') = Math_max 2 (Math_min (js_mul 18 (lit (15 / 100))) 30)"
    unfolding duration_def length_hello by simp
  also have "\<dots> = 6079859496950169 / 2 ^ 51" by code_simp
  finally show ?thesis .
qed

lemma numSamples_hello: "numSamples (js ''Hello there friend'') = 59534"
proof -
  have "Math_floor (js_mul sampleRate (6079859496950169 / 2 ^ 51)) = 59534" by code_simp
  then show ?thesis unfolding numSamples_def duration_hello by simp
qed

lemma round_hello: "spec_sampleCount (js ''Hello there friend'') = 59535"
proof -
  have "round (js_mul sampleRate (6079859496950169 / 2 ^ 51)) = 59535" by code_simp
  then show ?thesis unfolding spec_sampleCount_def duration_hello .
qed

lemma lit285: "lit (285 / 100) = 6417629469002957 / 2 ^ 51"
  by code_simp

lemma duration_19: "length t = 19 \<Longrightarrow> duration t = 6417629469002957 / 2 ^ 51"
proof -
  assume l: "length t = 19"
  have "duration t = Math_max 2 (Math_min (js_mul 19 (lit (15 / 100))) 30)"
    unfolding duration_def l by simp
  also have "\<dots> = 6417629469002957 / 2 ^ 51" by code_simp
  finally show ?thesis .
qed

lemma numSamples_19: "length t = 19 \<Longrightarrow> numSamples t = 62842"
proof -
  assume l: "length t = 19"
  have "Math_floor (js_mul sampleRate (6417629469002957 / 2 ^ 51)) = 62842" by code_simp
  then show ?thesis unfolding numSamples_def duration_19 [OF l] by simp
qed


text \<open>
  C2, as stated, fails on the code. The text "Hello there friend" has 18 code units, so its
  duration is the binary64 product 18 * 0.15 = 2.6999999999999997, not 2.85, and the sample
  count is \<open>Math.floor\<close> of 59534.99999999999, that is 59534: neither 62842 nor the rounded
  value 59535.
\<close>

theorem sample_count_counterexample:
  "duration (js ''Hello there friend'') \<noteq> 285 / 100
   \<and> duration (js ''Hello there friend'') \<noteq> lit (285 / 100)
   \<and> numSamples (js ''Hello there friend'') \<noteq> 62842
   \<and> int (numSamples (js ''Hello there friend'')) \<noteq> spec_sampleCount (js ''Hello there friend'')"
  unfolding duration_hello numSamples_hello round_hello lit285 by simp


text \<open>
  C2, amended: for every text the duration is clamp(length * 0.15, 2, 30) in binary64
  arithmetic and lies in [2, 30]; the sample count is the floor (not the rounding) of
  22050 * duration, lies between 44100 and 661500, and is the number of 16-bit samples in the
  generated buffer when the buffer can be allocated. "Hello there friend" (18 code units)
  gives 2.6999999999999997 seconds and 59534 samples; any text of 19 code units gives the
  binary64 value 2.85 and 62842 samples.
\<close>

theorem duration_and_sample_count:
  "duration t = max 2 (min (fl (of_nat (length t) * fl (15 / 100))) 30)
   \<and> 2 \<le> duration t \<and> duration t \<le> 30
   \<and> int (numSamples t) = \<lfloor>fl (22050 * duration t)\<rfloor>
   \<and> 44100 \<le> numSamples t \<and> numSamples t \<le> 661500
   \<and> (alloc_ok e (44 + numSamples t * 2) \<longrightarrow>
        length (bytes (generateHighQualityAudio e t)) = 44 + 2 * numSamples t)
   \<and> length (js ''Hello there friend'') = 18
   \<and> duration (js ''Hello there friend'') = 6079859496950169 / 2 ^ 51
   \<and> numSamples (js ''Hello there friend'') = 59534
   \<and> (length t = 19 \<longrightarrow> duration t = lit (285 / 100) \<and> numSamples t = 62842)"
proof -
  have a: "duration t = max 2 (min (fl (of_nat (length t) * fl (15 / 100))) 30)"
    by (simp add: duration_def Math_max_def Math_min_def js_mul_def lit_def)
  have pos: "0 \<le> \<lfloor>fl (22050 * duration t)\<rfloor>"
    using duration_bounds [of t] by (simp add: fl_nonneg)
  have b: "int (numSamples t) = \<lfloor>fl (22050 * duration t)\<rfloor>"
    using pos by (simp add: numSamples_def Math_floor_def js_mul_def sampleRate_def)
  have c: "alloc_ok e (44 + numSamples t * 2) \<longrightarrow>
        length (bytes (generateHighQualityAudio e t)) = 44 + 2 * numSamples t"
    by (simp add: generateHighQualityAudio_def wav_buffer_ok length_canonical_header
          length_concat int16_le_bytes comp_def sum_list_triv)
  have d: "length t = 19 \<longrightarrow> duration t = lit (285 / 100) \<and> numSamples t = 62842"
  proof
    assume l: "length t = 19"
    show "duration t = lit (285 / 100) \<and> numSamples t = 62842"
      using duration_19 [OF l] numSamples_19 [OF l] lit285 by (simp only:)
  qed
  have bd: "2 \<le> duration t \<and> duration t \<le> 30" by (rule duration_bounds)
  have bn: "44100 \<le> numSamples t \<and> numSamples t \<le> 661500" by (rule numSamples_bounds)
  show ?thesis
    using a bd b bn c length_hello duration_hello numSamples_hello d by blast
qed


theorem duration_and_sample_count_witness:
  "alloc_ok host (44 + numSamples (js ''Hello there friends'') * 2)
   \<and> length (js ''Hello there friends'') = 19
   \<and> numSamples (js ''Hello there friends'') = 62842
   \<and> length (bytes (generateHighQualityAudio host (js ''Hello there friends''))) = 125728"
proof -
  have l: "length (js ''Hello there friends'') = 19" by (simp add: js_def)
  have h: "alloc_ok host (44 + numSamples (js ''Hello there friends'') * 2)" by (simp add: host_def)
  show ?thesis
    using duration_and_sample_count [of "js ''Hello there friends''" host] l h by simp
qed

section \<open>The container encoder (claim C3)\<close>

lemma sample_range: "- 32768 \<le> js_trunc (sample e t k) \<and> js_trunc (sample e t k) \<le> 32767"
proof -
  have "- 32768 \<le> sample e t k" "sample e t k \<le> 32767"
    by (simp_all add: sample_def Let_def Math_max_def Math_min_def)
  then show ?thesis
    by (auto simp: js_trunc_def le_floor_iff floor_le_iff ceiling_le_iff le_ceiling_iff)
qed

lemma length_sample_bytes:
  "length (concat (map (\<lambda>k. int16_le (js_trunc (smp k))) [0..<n])) = 2 * n"
  by (simp add: length_concat int16_le_bytes comp_def sum_list_triv)

lemma numSamples_hi: "numSamples (js ''Hi'') = 44100"
proof -
  have l: "length (js ''Hi'') = 2" by (simp add: js_def)
  have "duration (js ''Hi'') = Math_max 2 (Math_min (js_mul 2 (lit (15 / 100))) 30)"
    unfolding duration_def l by simp
  also have "\<dots> = 2" by code_simp
  finally have d: "duration (js ''Hi'') = 2" .
  have "Math_floor (js_mul sampleRate 2) = 44100" by code_simp
  then show ?thesis unfolding numSamples_def d by simp
qed


text \<open>
  C3: whenever the buffer can be allocated, the bytes of the generated blob are the canonical
  44-byte header ("RIFF", uint32 36 + dataBytes, "WAVE", "fmt ", uint32 16, uint16 1, uint16
  channels, uint32 sample rate, uint32 byte rate, uint16 block align, uint16 16, "data",
  uint32 dataBytes, all little-endian) for the sample rate 22050 and one channel, followed by
  the samples as little-endian 16-bit two's complement values, with dataBytes twice the
  number of samples; every sample fits 16 signed bits, and decoding the header gives back the
  sample rate, the channel count, 16 bits per sample and dataBytes. The environment is
  arbitrary, so this holds for every sample sequence the synthesizer can produce.
\<close>

theorem wav_container_layout:
  assumes "alloc_ok e (44 + numSamples t * 2)"
  shows "bytes (generateHighQualityAudio e t)
           = canonical_header 22050 1 (2 * numSamples t)
             @ concat (map (\<lambda>k. int16_le (js_trunc (sample e t k))) [0..<numSamples t])
         \<and> length (canonical_header 22050 1 (2 * numSamples t)) = 44
         \<and> length (concat (map (\<lambda>k. int16_le (js_trunc (sample e t k))) [0..<numSamples t]))
             = 2 * numSamples t
         \<and> (\<forall>k. sint (word_of_int (js_trunc (sample e t k)) :: 16 word) = js_trunc (sample e t k))
         \<and> decode_header (bytes (generateHighQualityAudio e t))
             = Some \<lparr>fmtSampleRate = 22050, fmtChannels = 1, fmtBitsPerSample = 16,
                     fmtDataBytes = 2 * numSamples t\<rparr>
         \<and> mime (generateHighQualityAudio e t) = ''audio/wav''"
proof -
  let ?data = "concat (map (\<lambda>k. int16_le (js_trunc (sample e t k))) [0..<numSamples t])"
  have b: "bytes (generateHighQualityAudio e t) = canonical_header 22050 1 (2 * numSamples t) @ ?data"
    using wav_buffer_ok [OF assms] by (simp add: generateHighQualityAudio_def)
  have m: "mime (generateHighQualityAudio e t) = ''audio/wav''"
    by (simp add: generateHighQualityAudio_def split: option.split)
  have n: "2 * numSamples t < 2 ^ 32" using numSamples_bounds [of t] by simp
  have d: "decode_header (canonical_header 22050 1 (2 * numSamples t) @ ?data)
           = Some \<lparr>fmtSampleRate = 22050, fmtChannels = 1, fmtBitsPerSample = 16,
                   fmtDataBytes = 2 * numSamples t\<rparr>"
    by (rule decode_canonical) (use n in simp_all)
  have s: "\<forall>k. sint (word_of_int (js_trunc (sample e t k)) :: 16 word) = js_trunc (sample e t k)"
  proof
    fix k
    show "sint (word_of_int (js_trunc (sample e t k)) :: 16 word) = js_trunc (sample e t k)"
      using sample_range [of e t k] by (simp add: sint_sbintrunc' signed_take_bit_int_eq_self_iff)
  qed
  show ?thesis
    using b m d s length_canonical_header [of 22050 1 "2 * numSamples t"]
      length_sample_bytes [of "sample e t" "numSamples t"]
    by (simp only: simp_thms)
qed


theorem wav_container_layout_witness:
  "alloc_ok host (44 + numSamples (js ''Hi'') * 2)
   \<and> take 44 (bytes (generateHighQualityAudio host (js ''Hi'')))
       = [0x52, 0x49, 0x46, 0x46, 0xAC, 0x58, 0x01, 0x00, 0x57, 0x41, 0x56, 0x45,
          0x66, 0x6D, 0x74, 0x20, 0x10, 0x00, 0x00, 0x00, 0x01, 0x00, 0x01, 0x00,
          0x22, 0x56, 0x00, 0x00, 0x44, 0xAC, 0x00, 0x00, 0x02, 0x00, 0x10, 0x00,
          0x64, 0x61, 0x74, 0x61, 0x88, 0x58, 0x01, 0x00]
   \<and> decode_header (bytes (generateHighQualityAudio host (js ''Hi'')))
       = Some \<lparr>fmtSampleRate = 22050, fmtChannels = 1, fmtBitsPerSample = 16, fmtDataBytes = 88200\<rparr>"
proof -
  have h: "alloc_ok host (44 + numSamples (js ''Hi'') * 2)" by (simp add: host_def)
  have c: "canonical_header 22050 1 88200
           = [0x52, 0x49, 0x46, 0x46, 0xAC, 0x58, 0x01, 0x00, 0x57, 0x41, 0x56, 0x45,
              0x66, 0x6D, 0x74, 0x20, 0x10, 0x00, 0x00, 0x00, 0x01, 0x00, 0x01, 0x00,
              0x22, 0x56, 0x00, 0x00, 0x44, 0xAC, 0x00, 0x00, 0x02, 0x00, 0x10, 0x00,
              0x64, 0x61, 0x74, 0x61, 0x88, 0x58, 0x01, 0x00]"
    by (simp add: canonical_header_def ascii_def le16_def le32_def)
  have n: "2 * numSamples (js ''Hi'') = 88200" by (simp add: numSamples_hi)
  note w = wav_container_layout [OF h, unfolded n]
  have tk: "take 44 (bytes (generateHighQualityAudio host (js ''Hi'')))
            = [0x52, 0x49, 0x46, 0x46, 0xAC, 0x58, 0x01, 0x00, 0x57, 0x41, 0x56, 0x45,
               0x66, 0x6D, 0x74, 0x20, 0x10, 0x00, 0x00, 0x00, 0x01, 0x00, 0x01, 0x00,
               0x22, 0x56, 0x00, 0x00, 0x44, 0xAC, 0x00, 0x00, 0x02, 0x00, 0x10, 0x00,
               0x64, 0x61, 0x74, 0x61, 0x88, 0x58, 0x01, 0x00]"
    using w c by simp
  have d: "decode_header (bytes (generateHighQualityAudio host (js ''Hi'')))
           = Some \<lparr>fmtSampleRate = 22050, fmtChannels = 1, fmtBitsPerSample = 16, fmtDataBytes = 88200\<rparr>"
    using w by blast
  show ?thesis using h tk d by blast
qed


section \<open>Failure of the synthesis (claim C7)\<close>

text \<open>
  C7, as stated, fails on the code: when the synthesis fails, the blob of the \<open>catch\<close> branch
  has no bytes at all. It is not the 44-byte header describing zero data bytes, and it does not
  decode as a header.
\<close>

theorem synthesis_failure_counterexample:
  "bytes (generateHighQualityAudio host_no_memory (js ''Hi'')) = []
   \<and> decode_header (bytes (generateHighQualityAudio host_no_memory (js ''Hi''))) = None
   \<and> bytes (generateHighQualityAudio host_no_memory (js ''Hi'')) \<noteq> canonical_header 22050 1 0"
proof -
  have "wav_buffer host_no_memory (js ''Hi'') = None"
    by (simp add: wav_buffer_def new_ArrayBuffer_def host_no_memory_def host_def)
  then have b: "bytes (generateHighQualityAudio host_no_memory (js ''Hi'')) = []"
    by (simp add: generateHighQualityAudio_def)
  have "length (canonical_header 22050 1 0) = 44" by (rule length_canonical_header)
  then have "canonical_header 22050 1 0 \<noteq> []" by auto
  then show ?thesis using b by (simp add: decode_header_def)
qed


text \<open>
  C7, amended: the only failure of the \<open>try\<close> block is the allocation of the buffer; then
  generateHighQualityAudio does not raise but resolves with a blob of type audio/wav and of
  zero bytes (no header), and generateFallbackAudio adopts that blob as the current artifact.
  In every case generateFallbackAudio leaves an artifact.
\<close>

theorem synthesis_failure_recovery:
  "(wav_buffer e t = None) = (\<not> alloc_ok e (44 + numSamples t * 2))
   \<and> (\<not> alloc_ok e (44 + numSamples t * 2) \<longrightarrow>
        generateHighQualityAudio e t = \<lparr>bytes = [], mime = ''audio/wav''\<rparr>
        \<and> audioUrl (generateFallbackAudio e t s) = Some \<lparr>bytes = [], mime = ''audio/wav''\<rparr>)
   \<and> audioUrl (generateFallbackAudio e t s) = Some (generateHighQualityAudio e t)"
proof -
  have a: "(wav_buffer e t = None) = (\<not> alloc_ok e (44 + numSamples t * 2))"
  proof (cases "alloc_ok e (44 + numSamples t * 2)")
    case True
    then show ?thesis using wav_buffer_ok [OF True] by simp
  next
    case False
    then show ?thesis by (simp add: wav_buffer_def new_ArrayBuffer_def)
  qed
  show ?thesis
    using a by (auto simp: generateHighQualityAudio_def generateFallbackAudio_def)
qed


theorem synthesis_failure_recovery_witness:
  "\<not> alloc_ok host_no_memory (44 + numSamples (js ''Hi'') * 2)
   \<and> generateHighQualityAudio host_no_memory (js ''Hi'') = \<lparr>bytes = [], mime = ''audio/wav''\<rparr>
   \<and> audioUrl (generateFallbackAudio host_no_memory (js ''Hi'') initial)
       = Some \<lparr>bytes = [], mime = ''audio/wav''\<rparr>"
proof -
  have h: "\<not> alloc_ok host_no_memory (44 + numSamples (js ''Hi'') * 2)"
    by (simp add: host_no_memory_def host_def)
  show ?thesis
    using synthesis_failure_recovery [of host_no_memory "js ''Hi''" initial] h by blast
qed

section \<open>Word slices and formants (claim C8)\<close>

lemma split_a_b: "split_space (js ''a  b'') = [js ''a'', [], js ''b'']"
  by (simp add: split_space_def js_def space_def)

lemma words_a_b: "words_ws (js ''a  b'') = [js ''a'', js ''b'']"
  by (simp add: words_ws_def js_def is_js_whitespace_def)

lemma duration_a_b: "duration (js ''a  b'') = 2"
proof -
  have l: "length (js ''a  b'') = 4" by (simp add: js_def)
  have "duration (js ''a  b'') = Math_max 2 (Math_min (js_mul 4 (lit (15 / 100))) 30)"
    unfolding duration_def l by simp
  also have "\<dots> = 2" by code_simp
  finally show ?thesis .
qed

lemma fl_two_thirds: "js_div 2 3 = 6004799503160661 / 2 ^ 53" "js_div 2 2 = 1"
  by code_simp+

text \<open>
  C8, as stated, fails on the code: the text is not partitioned by whitespace but cut at every
  single space, empty pieces included. In "a  b" (two spaces) there are two words, but
  \<open>split(" ")\<close> returns three pieces, so each slice lasts 2/3 of a second where the claim
  gives each of the two words one second.
\<close>

theorem word_partition_counterexample:
  "length (split_space (js ''a  b'')) = 3
   \<and> spec_wordCount (js ''a  b'') = 2
   \<and> wordDuration (js ''a  b'') = 6004799503160661 / 2 ^ 53
   \<and> js_div (duration (js ''a  b'')) (of_nat (spec_wordCount (js ''a  b''))) = 1
   \<and> wordDuration (js ''a  b'') \<noteq> js_div (duration (js ''a  b'')) (of_nat (spec_wordCount (js ''a  b'')))"
proof -
  have a: "length (split_space (js ''a  b'')) = 3" by (simp add: split_a_b)
  have b: "spec_wordCount (js ''a  b'') = 2" by (simp add: spec_wordCount_def words_a_b)
  have c: "wordDuration (js ''a  b'') = 6004799503160661 / 2 ^ 53"
    unfolding wordDuration_def a duration_a_b using fl_two_thirds(1) by simp
  have d: "js_div (duration (js ''a  b'')) (of_nat (spec_wordCount (js ''a  b''))) = 1"
    unfolding b duration_a_b using fl_two_thirds(2) by simp
  have e: "(6004799503160661 / 2 ^ 53 :: rat) \<noteq> 1" by simp
  show ?thesis using a b c d e by (simp only: simp_thms)
qed

text \<open>
  C8, amended: the synthesizer cuts the text at every space character (code unit 0x20),
  keeping empty pieces, so the number of slices is one more than the number of spaces (never
  zero) and joining the pieces with spaces gives the text back; each slice lasts
  duration / sliceCount (rounded to binary64); the word index of sample \<open>i\<close> is the floor of
  time / sliceDuration and is not negative; the base frequency is
  120 + (wordIndex mod 5) * 40 Hz; and the sample is the clamped, noise-added product of the
  amplitude, 32767 and the sum of three sines: of the base frequency, of 2.5 times it scaled
  by 0.3, and of 3.5 times it scaled by 0.1.
\<close>

theorem word_slices_and_formants:
  "length (split_space t) = 1 + count_list t space
   \<and> join_space (split_space t) = t
   \<and> wordDuration t = fl (duration t / of_nat (1 + count_list t space))
   \<and> wordIndex t i = \<lfloor>fl (time i / wordDuration t)\<rfloor> \<and> 0 \<le> wordIndex t i
   \<and> baseFreq t i = of_int (120 + (wordIndex t i mod 5) * 40)
   \<and> formant1 e t i = msin e (fl (fl (fl (2 * Math_PI) * baseFreq t i) * time i))
   \<and> formant2 e t i
       = fl (msin e (fl (fl (fl (2 * Math_PI) * (baseFreq t i * (5 / 2))) * time i)) * fl (3 / 10))
   \<and> formant3 e t i
       = fl (msin e (fl (fl (fl (2 * Math_PI) * (baseFreq t i * (7 / 2))) * time i)) * fl (1 / 10))
   \<and> sample e t i
       = max (- 32768) (min 32767
           (fl (fl (fl (fl (fl (formant1 e t i + formant2 e t i) + formant3 e t i) * amplitude e t i)
                    * 32767)
                + fl (fl (random e i - fl (1 / 2)) * 1000))))"
proof -
  have a: "length (split_space t) = 1 + count_list t space"
    by (simp add: split_space_def length_split_from)
  have b: "join_space (split_space t) = t"
    by (simp add: split_space_def join_split_from)
  have c: "wordDuration t = fl (duration t / of_nat (1 + count_list t space))"
    unfolding wordDuration_def a by (simp add: js_div_def)
  have d: "wordIndex t i = \<lfloor>fl (time i / wordDuration t)\<rfloor>"
    by (simp add: wordIndex_def Math_floor_def js_div_def)
  have f1: "formant1 e t i = msin e (fl (fl (fl (2 * Math_PI) * baseFreq t i) * time i))"
    by (simp add: formant1_def js_mul_def)
  have f2: "formant2 e t i
       = fl (msin e (fl (fl (fl (2 * Math_PI) * (baseFreq t i * (5 / 2))) * time i)) * fl (3 / 10))"
    unfolding formant2_def harmonic2 by (simp add: js_mul_def lit_def)
  have f3: "formant3 e t i
       = fl (msin e (fl (fl (fl (2 * Math_PI) * (baseFreq t i * (7 / 2))) * time i)) * fl (1 / 10))"
    unfolding formant3_def harmonic3 by (simp add: js_mul_def lit_def)
  have s: "sample e t i
       = max (- 32768) (min 32767
           (fl (fl (fl (fl (fl (formant1 e t i + formant2 e t i) + formant3 e t i) * amplitude e t i)
                    * 32767)
                + fl (fl (random e i - fl (1 / 2)) * 1000))))"
    by (simp add: sample_def Let_def js_mul_def js_add_def js_sub_def lit_def Math_max_def
          Math_min_def)
  show ?thesis
    using a b c d wordIndex_nonneg [of t i] baseFreq_value [of t i] f1 f2 f3 s
    by (simp only: simp_thms)
qed

section \<open>The playback and capture lifecycle\<close>

lemma trim_hi: "trim (js ''Hi'') = js ''Hi''"
  by (simp add: trim_def js_def is_js_whitespace_def)

lemma js_hi_nonempty: "js ''Hi'' \<noteq> []"
  by (simp add: js_def)

lemma speak_hi:
  "speak host (typed ''Hi'')
   = initial\<lparr>inputText := js ''Hi'', isProcessing := True, streamLive := Some True,
       mediaRecorder := Some \<lparr>rstate = Inactive, gathered = []\<rparr>,
       utteranceRef := Some \<lparr>utext = js ''Hi'', uvoice = None, urate = 1, upitch = 1, uvolume = 1,
                               recordingReady = True, recordingStarted = False\<rparr>,
       synth_speaking := True,
       synth_spoken := [\<lparr>utext = js ''Hi'', uvoice = None, urate = 1, upitch = 1, uvolume = 1,
                          recordingReady = True, recordingStarted = False\<rparr>]\<rparr>"
  using js_hi_nonempty
  by (simp add: speak_def typed_def trim_hi setupAudioRecording_def host_def initial_def Let_def)

lemma speaking_hi_eq:
  "speaking_hi
   = initial\<lparr>inputText := js ''Hi'', isSpeaking := True, isProcessing := True, isRecording := True,
       streamLive := Some True,
       mediaRecorder := Some \<lparr>rstate = Recording, gathered = [1, 2, 3]\<rparr>,
       utteranceRef := Some \<lparr>utext = js ''Hi'', uvoice = None, urate = 1, upitch = 1, uvolume = 1,
                               recordingReady = True, recordingStarted = True\<rparr>,
       synth_speaking := True,
       synth_spoken := [\<lparr>utext = js ''Hi'', uvoice = None, urate = 1, upitch = 1, uvolume = 1,
                          recordingReady = True, recordingStarted = False\<rparr>]\<rparr>"
  unfolding speaking_hi_def speak_hi
  by (simp add: deliver_def onstart_def recorder_start_def audio_captured_def host_def initial_def
        Let_def)

lemma speaking_hi_no_capture_eq:
  "speaking_hi_no_capture
   = initial\<lparr>inputText := js ''Hi'', isSpeaking := True, isProcessing := True,
       recordingError := ''Audio recording not available. Using fallback audio.'',
       utteranceRef := Some \<lparr>utext = js ''Hi'', uvoice = None, urate = 1, upitch = 1, uvolume = 1,
                               recordingReady = False, recordingStarted = False\<rparr>,
       synth_speaking := True,
       synth_spoken := [\<lparr>utext = js ''Hi'', uvoice = None, urate = 1, upitch = 1, uvolume = 1,
                          recordingReady = False, recordingStarted = False\<rparr>]\<rparr>"
  using js_hi_nonempty
  by (simp add: speaking_hi_no_capture_def speak_def typed_def trim_hi setupAudioRecording_def
        host_no_microphone_def host_def initial_def deliver_def onstart_def Let_def)

lemma run_pending_stop_tasks:
  "run_pending (s\<lparr>pending := [DataAvailable d, RecorderStopped]\<rparr>)
   = onstop (ondataavailable d (s\<lparr>pending := []\<rparr>))"
  by (simp add: run_pending_def)

lemma run_pending_nil: "pending s = [] \<Longrightarrow> run_pending s = s"
proof -
  assume p: "pending s = []"
  have "s\<lparr>pending := pending s\<rparr> = s" by simp
  then show ?thesis using p by (simp add: run_pending_def)
qed

lemma audioUrl_onstop_data:
  "audioUrl (onstop (ondataavailable d s)) = Some \<lparr>bytes = concat (audioChunks s) @ d, mime = ''audio/webm''\<rparr>"
  by (cases "streamLive s") (auto simp: onstop_def ondataavailable_def Let_def)

lemma flags_onstop_data:
  "isSpeaking (onstop (ondataavailable d s)) = isSpeaking s"
  "isPaused (onstop (ondataavailable d s)) = isPaused s"
  "isProcessing (onstop (ondataavailable d s)) = isProcessing s"
  "synth_speaking (onstop (ondataavailable d s)) = synth_speaking s"
  "isRecording (onstop (ondataavailable d s)) = False"
  by (cases "streamLive s"; auto simp: onstop_def ondataavailable_def Let_def)+

subsection \<open>The end of an attempt (claim C1)\<close>

lemma attempt_artifact_quiet:
  assumes "utteranceRef s = Some u" and "pending s = []"
    and "ev = PlaybackEnded \<or> ev = PlaybackError"
  shows "audioUrl (run_pending (deliver e ev s))
           = Some (if ev = PlaybackEnded \<and> recordingStarted u \<and> capture_recording s
                   then captured_artifact s else generateHighQualityAudio e (utext u))
         \<and> idle (run_pending (deliver e ev s))"
proof (cases "ev = PlaybackEnded \<and> recordingStarted u \<and> capture_recording s")
  case True
  then obtain r where r: "mediaRecorder s = Some r" "rstate r = Recording"
    by (auto simp: capture_recording_def split: option.splits)
  have "deliver e ev s
        = (s\<lparr>synth_speaking := False, synth_paused := False, isSpeaking := False, isPaused := False,
              isProcessing := False, mediaRecorder := Some (r\<lparr>rstate := Inactive, gathered := []\<rparr>)\<rparr>)
           \<lparr>pending := [DataAvailable (gathered r), RecorderStopped]\<rparr>"
    using True r assms(1,2) by (simp add: deliver_def onend_def recorder_stop_def Let_def)
  then show ?thesis
    using True r
    by (simp add: run_pending_stop_tasks audioUrl_onstop_data flags_onstop_data idle_def
          captured_artifact_def)
next
  case False
  have p: "pending (deliver e ev s) = []"
    using False assms
    by (auto simp: deliver_def onend_def onerror_def generateFallbackAudio_def recorder_stop_def
          capture_recording_def Let_def split: option.splits)
  have "audioUrl (deliver e ev s) = Some (generateHighQualityAudio e (utext u))
        \<and> idle (deliver e ev s)"
    using False assms
    by (auto simp: deliver_def onend_def onerror_def generateFallbackAudio_def recorder_stop_def
          capture_recording_def idle_def Let_def split: option.splits)
  then show ?thesis using False run_pending_nil [OF p] by auto
qed

lemma audioUrl_run_task: "audioUrl x \<noteq> None \<or> k = RecorderStopped \<Longrightarrow> audioUrl (run_task k x) \<noteq> None"
  by (cases k; cases "streamLive x") (auto simp: onstop_def ondataavailable_def Let_def)

lemma audioUrl_fold_tasks:
  "audioUrl x \<noteq> None \<or> RecorderStopped \<in> set ks \<Longrightarrow> audioUrl (fold run_task ks x) \<noteq> None"
proof (induction ks arbitrary: x)
  case Nil
  then show ?case by simp
next
  case (Cons k ks)
  show ?case
  proof (cases "audioUrl x \<noteq> None \<or> k = RecorderStopped")
    case True
    then have "audioUrl (run_task k x) \<noteq> None" by (rule audioUrl_run_task)
    then show ?thesis using Cons.IH [of "run_task k x"] by simp
  next
    case False
    then have "RecorderStopped \<in> set ks" using Cons.prems by auto
    then show ?thesis using Cons.IH [of "run_task k x"] by simp
  qed
qed

lemma deliver_leaves_artifact:
  assumes "utteranceRef s = Some u" and "ev = PlaybackEnded \<or> ev = PlaybackError"
  shows "audioUrl (deliver e ev s) \<noteq> None \<or> RecorderStopped \<in> set (pending (deliver e ev s))"
  using assms
  by (auto simp: deliver_def onend_def onerror_def generateFallbackAudio_def recorder_stop_def
        Let_def split: option.splits)

text \<open>
  C1, as stated, fails on the code: when the engine reports an error while the capture is
  recording, the captured audio is not adopted. The artifact is the synthesized one.
\<close>

theorem error_while_recording_counterexample:
  "capture_recording speaking_hi
   \<and> audioUrl (run_pending (deliver host PlaybackError speaking_hi))
       = Some (generateHighQualityAudio host (js ''Hi''))
   \<and> audioUrl (run_pending (deliver host PlaybackError speaking_hi))
       \<noteq> Some (captured_artifact speaking_hi)
   \<and> capture_recording (run_pending (deliver host PlaybackError speaking_hi))"
proof -
  have c: "capture_recording speaking_hi" by (simp add: speaking_hi_eq capture_recording_def)
  have p: "pending (deliver host PlaybackError speaking_hi) = []"
    by (simp add: speaking_hi_eq deliver_def onerror_def generateFallbackAudio_def initial_def)
  have a: "audioUrl (deliver host PlaybackError speaking_hi)
           = Some (generateHighQualityAudio host (js ''Hi''))"
    by (simp add: speaking_hi_eq deliver_def onerror_def generateFallbackAudio_def)
  have r: "capture_recording (deliver host PlaybackError speaking_hi)"
    by (simp add: speaking_hi_eq deliver_def onerror_def generateFallbackAudio_def
          capture_recording_def)
  have "mime (generateHighQualityAudio host (js ''Hi'')) = ''audio/wav''"
    by (simp add: generateHighQualityAudio_def split: option.split)
  moreover have "mime (captured_artifact speaking_hi) = ''audio/webm''"
    by (simp add: captured_artifact_def)
  ultimately have n: "generateHighQualityAudio host (js ''Hi'') \<noteq> captured_artifact speaking_hi"
    by auto
  show ?thesis using c a r n by (simp add: run_pending_nil [OF p])
qed

text \<open>
  C1, amended: when the engine reports the end or an error of the current utterance, then
  after the handler and the queued recorder events the artifact slot is never empty. When no
  recorder event was waiting before, it holds exactly the captured artifact if the event is
  the end, recording had started and the recorder is recording and is stopped, and otherwise,
  so after every error event, the synthesized one: generateHighQualityAudio of the
  utterance's text. The lifecycle is Idle again.
\<close>

theorem attempt_ends_with_artifact:
  assumes "utteranceRef s = Some u" and "ev = PlaybackEnded \<or> ev = PlaybackError"
  shows "audioUrl (run_pending (deliver e ev s)) \<noteq> None
         \<and> (pending s = [] \<longrightarrow>
              audioUrl (run_pending (deliver e ev s))
                = Some (if ev = PlaybackEnded \<and> recordingStarted u \<and> capture_recording s
                        then captured_artifact s else generateHighQualityAudio e (utext u))
              \<and> idle (run_pending (deliver e ev s)))"
proof -
  have "audioUrl (fold run_task (pending (deliver e ev s)) ((deliver e ev s)\<lparr>pending := []\<rparr>)) \<noteq> None"
    using deliver_leaves_artifact [OF assms, of e] by (intro audioUrl_fold_tasks) simp
  then have a: "audioUrl (run_pending (deliver e ev s)) \<noteq> None" by (simp add: run_pending_def)
  show ?thesis using a attempt_artifact_quiet [OF assms(1) _ assms(2), of e] by blast
qed

theorem attempt_ends_with_artifact_witness:
  "utteranceRef speaking_hi
     = Some \<lparr>utext = js ''Hi'', uvoice = None, urate = 1, upitch = 1, uvolume = 1,
              recordingReady = True, recordingStarted = True\<rparr>
   \<and> pending speaking_hi = []
   \<and> audioUrl (run_pending (deliver host PlaybackEnded speaking_hi))
       = Some \<lparr>bytes = [1, 2, 3], mime = ''audio/webm''\<rparr>
   \<and> audioUrl (run_pending (deliver host PlaybackError speaking_hi))
       = Some (generateHighQualityAudio host (js ''Hi''))
   \<and> pending speaking_hi_no_capture = []
   \<and> audioUrl (run_pending (deliver host_no_microphone PlaybackEnded speaking_hi_no_capture))
       = Some (generateHighQualityAudio host_no_microphone (js ''Hi''))"
proof -
  let ?u = "\<lparr>utext = js ''Hi'', uvoice = None, urate = 1, upitch = 1, uvolume = 1,
             recordingReady = True, recordingStarted = True\<rparr>"
  let ?v = "\<lparr>utext = js ''Hi'', uvoice = None, urate = 1, upitch = 1, uvolume = 1,
             recordingReady = False, recordingStarted = False\<rparr>"
  have u: "utteranceRef speaking_hi = Some ?u" by (simp add: speaking_hi_eq)
  have p: "pending speaking_hi = []" by (simp add: speaking_hi_eq initial_def)
  have c: "capture_recording speaking_hi" by (simp add: speaking_hi_eq capture_recording_def)
  have a: "captured_artifact speaking_hi = \<lparr>bytes = [1, 2, 3], mime = ''audio/webm''\<rparr>"
    by (simp add: speaking_hi_eq captured_artifact_def initial_def)
  have v: "utteranceRef speaking_hi_no_capture = Some ?v" by (simp add: speaking_hi_no_capture_eq)
  have q: "pending speaking_hi_no_capture = []" by (simp add: speaking_hi_no_capture_eq initial_def)
  have e1: "audioUrl (run_pending (deliver host PlaybackEnded speaking_hi))
            = Some \<lparr>bytes = [1, 2, 3], mime = ''audio/webm''\<rparr>"
    using attempt_ends_with_artifact [OF u, of PlaybackEnded host] p c a by simp
  have e2: "audioUrl (run_pending (deliver host PlaybackError speaking_hi))
            = Some (generateHighQualityAudio host (js ''Hi''))"
    using attempt_ends_with_artifact [OF u, of PlaybackError host] p by simp
  have e3: "audioUrl (run_pending (deliver host_no_microphone PlaybackEnded speaking_hi_no_capture))
            = Some (generateHighQualityAudio host_no_microphone (js ''Hi''))"
    using attempt_ends_with_artifact [OF v, of PlaybackEnded host_no_microphone] q by simp
  show ?thesis using u p q e1 e2 e3 by blast
qed

subsection \<open>The user's stop (claim C4)\<close>

text \<open>
  C4, as stated, fails on the code: after \<open>stop()\<close> with the recorder recording, the recorder's
  stop event adopts the captured audio as the current artifact. It is neither discarded nor is
  the artifact slot empty.
\<close>

theorem user_stop_counterexample:
  "map_option (audioUrl \<circ> run_pending) (stop speaking_hi)
     = Some (Some \<lparr>bytes = [1, 2, 3], mime = ''audio/webm''\<rparr>)
   \<and> map_option (audioUrl \<circ> run_pending) (stop speaking_hi) \<noteq> Some None"
  by (simp add: speaking_hi_eq stop_def synth_cancel_def recorder_stop_def initial_def Let_def
        run_pending_def onstop_def ondataavailable_def)

text \<open>
  C4, amended: when the user calls \<open>stop()\<close> while the engine is speaking and the recorder is
  recording, playback is cancelled, the lifecycle becomes Idle at once (no synthesis, no
  Finalizing), the recorder is stopped, \<open>stop()\<close> itself leaves the artifact slot as it was,
  and the recorder's stop event then adopts the captured audio as the current artifact.
\<close>

theorem user_stop_adopts_capture:
  assumes "synth_speaking s" and "mediaRecorder s = Some r" and "rstate r = Recording"
    and "pending s = []"
  shows "stop s = Some (s\<lparr>synth_speaking := False, synth_paused := False, isSpeaking := False,
                          isPaused := False, isProcessing := False,
                          mediaRecorder := Some (r\<lparr>rstate := Inactive, gathered := []\<rparr>),
                          pending := [DataAvailable (gathered r), RecorderStopped]\<rparr>)
         \<and> map_option audioUrl (stop s) = Some (audioUrl s)
         \<and> map_option idle (stop s) = Some True
         \<and> map_option (audioUrl \<circ> run_pending) (stop s) = Some (Some (captured_artifact s))
         \<and> map_option (idle \<circ> run_pending) (stop s) = Some True
         \<and> map_option (isRecording \<circ> run_pending) (stop s) = Some False"
proof -
  have st: "stop s = Some ((s\<lparr>synth_speaking := False, synth_paused := False, isSpeaking := False,
                          isPaused := False, isProcessing := False,
                          mediaRecorder := Some (r\<lparr>rstate := Inactive, gathered := []\<rparr>)\<rparr>)
                          \<lparr>pending := [DataAvailable (gathered r), RecorderStopped]\<rparr>)"
    using assms by (simp add: stop_def synth_cancel_def recorder_stop_def Let_def)
  show ?thesis
    unfolding st
    using assms
    by (simp add: run_pending_stop_tasks audioUrl_onstop_data flags_onstop_data idle_def
          captured_artifact_def)
qed

theorem user_stop_adopts_capture_witness:
  "synth_speaking speaking_hi
   \<and> mediaRecorder speaking_hi = Some \<lparr>rstate = Recording, gathered = [1, 2, 3]\<rparr>
   \<and> pending speaking_hi = []
   \<and> map_option (audioUrl \<circ> run_pending) (stop speaking_hi)
       = Some (Some \<lparr>bytes = [1, 2, 3], mime = ''audio/webm''\<rparr>)
   \<and> map_option (idle \<circ> run_pending) (stop speaking_hi) = Some True"
proof -
  have a: "synth_speaking speaking_hi" by (simp add: speaking_hi_eq)
  have b: "mediaRecorder speaking_hi = Some \<lparr>rstate = Recording, gathered = [1, 2, 3]\<rparr>"
    by (simp add: speaking_hi_eq)
  have c: "rstate \<lparr>rstate = Recording, gathered = [1, 2, 3]\<rparr> = Recording" by simp
  have p: "pending speaking_hi = []" by (simp add: speaking_hi_eq initial_def)
  have k: "captured_artifact speaking_hi = \<lparr>bytes = [1, 2, 3], mime = ''audio/webm''\<rparr>"
    by (simp add: speaking_hi_eq captured_artifact_def initial_def)
  note w = user_stop_adopts_capture [OF a b c p, unfolded k]
  show ?thesis using w a b p by blast
qed

subsection \<open>Idempotence of stop (claim C6)\<close>

lemma stop_total: "\<exists>s'. stop s = Some s' \<and> \<not> synth_speaking s'"
  by (auto simp: stop_def synth_cancel_def recorder_stop_def Let_def split: option.splits)

lemma stop_inactive: "\<not> synth_speaking s \<Longrightarrow> stop s = Some s"
  by (simp add: stop_def)

lemma synth_speaking_run_pending: "synth_speaking (run_pending s) = synth_speaking s"
proof -
  have t: "synth_speaking (run_task k x) = synth_speaking x" for k x
    by (cases k; cases "streamLive x") (auto simp: onstop_def ondataavailable_def Let_def)
  have "synth_speaking (fold run_task ks x) = synth_speaking x" for ks x
    by (induction ks arbitrary: x) (simp_all add: t)
  then show ?thesis by (simp add: run_pending_def)
qed

text \<open>
  C6: \<open>stop()\<close> raises from no state; a second call right after the first, or after the
  recorder events of the first have been delivered, changes nothing; and when the engine is
  not speaking the call changes nothing at all.
\<close>

theorem stop_idempotent:
  "(\<exists>s'. stop s = Some s' \<and> stop s' = Some s' \<and> stop (run_pending s') = Some (run_pending s'))
   \<and> (\<not> synth_speaking s \<longrightarrow> stop s = Some s)"
proof -
  obtain s' where s': "stop s = Some s'" "\<not> synth_speaking s'"
    using stop_total [of s] by blast
  have "stop s' = Some s'" using s'(2) by (rule stop_inactive)
  moreover have "stop (run_pending s') = Some (run_pending s')"
    using s'(2) by (simp add: stop_inactive synth_speaking_run_pending)
  ultimately show ?thesis using s'(1) stop_inactive [of s] by blast
qed

theorem stop_idempotent_witness:
  "\<not> synth_speaking initial \<and> stop initial = Some initial
   \<and> stop speaking_hi \<noteq> None \<and> (stop speaking_hi \<bind> stop) = stop speaking_hi"
proof -
  have i: "\<not> synth_speaking initial" by (simp add: initial_def)
  obtain s' where s': "stop speaking_hi = Some s'" "stop s' = Some s'"
    using stop_idempotent [of speaking_hi] by blast
  then have "stop speaking_hi \<noteq> None \<and> (stop speaking_hi \<bind> stop) = stop speaking_hi" by simp
  then show ?thesis using stop_idempotent [of initial] i by blast
qed

subsection \<open>Blank text (claim C9)\<close>

text \<open>
  C9: when the text is empty after trimming, \<open>speak\<close> shows the alert "Please enter some text
  to speak." and changes nothing else: no utterance is handed to the engine, no recorder or
  stream is set up, and the artifact slot and the lifecycle flags are as before.
\<close>

theorem blank_text_rejected:
  assumes "trim (inputText s) = []"
  shows "speak e s = s\<lparr>alerts := alerts s @ [''Please enter some text to speak.'']\<rparr>
         \<and> synth_spoken (speak e s) = synth_spoken s
         \<and> synth_speaking (speak e s) = synth_speaking s
         \<and> utteranceRef (speak e s) = utteranceRef s
         \<and> mediaRecorder (speak e s) = mediaRecorder s
         \<and> streamLive (speak e s) = streamLive s
         \<and> audioUrl (speak e s) = audioUrl s
         \<and> isSpeaking (speak e s) = isSpeaking s
         \<and> isPaused (speak e s) = isPaused s
         \<and> isProcessing (speak e s) = isProcessing s
         \<and> isRecording (speak e s) = isRecording s"
  using assms by (simp add: speak_def)

theorem blank_text_rejected_witness:
  "trim (inputText (typed [CHR '' '', CHR 0x09, CHR '' ''])) = []
   \<and> speak host (typed [CHR '' '', CHR 0x09, CHR '' ''])
       = (typed [CHR '' '', CHR 0x09, CHR '' ''])\<lparr>alerts := [''Please enter some text to speak.'']\<rparr>
   \<and> synth_spoken (speak host (typed [CHR '' '', CHR 0x09, CHR '' ''])) = []
   \<and> mediaRecorder (speak host (typed [CHR '' '', CHR 0x09, CHR '' ''])) = None"
proof -
  have b: "trim (inputText (typed [CHR '' '', CHR 0x09, CHR '' ''])) = []"
    by (simp add: typed_def trim_def js_def is_js_whitespace_def)
  have "alerts (typed [CHR '' '', CHR 0x09, CHR '' '']) = []"
    "synth_spoken (typed [CHR '' '', CHR 0x09, CHR '' '']) = []"
    "mediaRecorder (typed [CHR '' '', CHR 0x09, CHR '' '']) = None"
    by (simp_all add: typed_def initial_def)
  then show ?thesis
    using blank_text_rejected [OF b, of host] b by simp
qed

subsection \<open>Download without an artifact (claim C10)\<close>

text \<open>
  C10: when there is no current artifact, \<open>downloadAudio\<close> shows an advisory alert, raises
  nothing and changes nothing else: the artifact slot stays empty, nothing is downloaded, and
  the playback state is as before.
\<close>

theorem download_without_artifact:
  assumes "audioUrl s = None"
  shows "downloadAudio e s
           = s\<lparr>alerts := alerts s @ [''No audio available to download. Please generate speech first.'']\<rparr>
         \<and> audioUrl (downloadAudio e s) = None
         \<and> downloads (downloadAudio e s) = downloads s
         \<and> isSpeaking (downloadAudio e s) = isSpeaking s
         \<and> isPaused (downloadAudio e s) = isPaused s
         \<and> isProcessing (downloadAudio e s) = isProcessing s
         \<and> isRecording (downloadAudio e s) = isRecording s
         \<and> synth_speaking (downloadAudio e s) = synth_speaking s"
  using assms by (simp add: downloadAudio_def)

theorem download_without_artifact_witness:
  "audioUrl initial = None
   \<and> downloadAudio host initial
       = initial\<lparr>alerts := [''No audio available to download. Please generate speech first.'']\<rparr>
   \<and> downloads (downloadAudio host initial) = []"
proof -
  have a: "audioUrl initial = None" by (simp add: initial_def)
  have "alerts initial = []" "downloads initial = []" by (simp_all add: initial_def)
  then show ?thesis using download_without_artifact [OF a, of host] a by simp
qed

subsection \<open>The parameters handed to the engine (claim C5)\<close>

lemma parseFloat_rate_range:
  "1 / 2 \<le> parseFloat (range_value (1 / 2) 2 x) \<and> parseFloat (range_value (1 / 2) 2 x) \<le> 2"
proof -
  let ?v = "range_value (1 / 2) 2 x"
  have v: "1 / 2 \<le> ?v" "?v \<le> 2" by (simp_all add: range_value_def)
  have a: "1 / 2 \<le> fl ?v" using v by (intro fl_ge_half) simp_all
  have "fl ?v \<le> of_int 2" using v by (intro fl_le_int) simp_all
  then show ?thesis using a by (simp add: parseFloat_def)
qed

lemma parseFloat_volume_range:
  "0 \<le> parseFloat (range_value 0 1 x) \<and> parseFloat (range_value 0 1 x) \<le> 1"
proof (cases "range_value 0 1 x = 0")
  case True
  then show ?thesis by (simp add: parseFloat_def fl_def)
next
  case False
  let ?v = "range_value 0 1 x"
  have v: "0 < ?v" "?v \<le> 1" using False by (simp_all add: range_value_def max_def min_def split: if_splits)
  have "fl ?v \<le> of_int 1" using v by (intro fl_le_int) simp_all
  then show ?thesis using v by (simp add: parseFloat_def fl_nonneg)
qed

lemma in_ranges_handed:
  "in_ranges r p v \<Longrightarrow> r = clamp (1 / 2) 2 r \<and> p = clamp (1 / 2) 2 p \<and> v = clamp 0 1 v"
  by (auto simp: in_ranges_def clamp_def)

lemma settings_run_task:
  "rate (run_task k x) = rate x \<and> pitch (run_task k x) = pitch x \<and> volume (run_task k x) = volume x
   \<and> synth_spoken (run_task k x) = synth_spoken x"
  by (cases k; cases "streamLive x") (auto simp: onstop_def ondataavailable_def Let_def)

lemma settings_fold_tasks:
  "rate (fold run_task ks x) = rate x \<and> pitch (fold run_task ks x) = pitch x
   \<and> volume (fold run_task ks x) = volume x \<and> synth_spoken (fold run_task ks x) = synth_spoken x"
  by (induction ks arbitrary: x) (simp_all add: settings_run_task)

lemma settings_run_pending: "settings_ok (run_pending s) = settings_ok s"
  using settings_fold_tasks [of "pending s" "s\<lparr>pending := []\<rparr>"]
  by (simp add: settings_ok_def run_pending_def)

lemma speak_hands_state_values:
  assumes "trim (inputText s) \<noteq> []"
  shows "\<exists>u. synth_spoken (speak e s) = synth_spoken s @ [u] \<and> utteranceRef (speak e s) = Some u
             \<and> utext u = inputText s \<and> uvoice u = selectedVoice s
             \<and> urate u = rate s \<and> upitch u = pitch s \<and> uvolume u = volume s"
  using assms
  by (auto simp: speak_def setupAudioRecording_def Let_def synth_cancel_def)

lemma speak_settings:
  "rate (speak e s) = rate s \<and> pitch (speak e s) = pitch s \<and> volume (speak e s) = volume s"
  by (auto simp: speak_def setupAudioRecording_def Let_def synth_cancel_def)

lemma settings_speak: "settings_ok s \<Longrightarrow> settings_ok (speak e s)"
proof (cases "trim (inputText s) = []")
  case True
  assume "settings_ok s"
  then show ?thesis using True by (simp add: speak_def settings_ok_def)
next
  case False
  assume ok: "settings_ok s"
  obtain u where u: "synth_spoken (speak e s) = synth_spoken s @ [u]"
    "urate u = rate s" "upitch u = pitch s" "uvolume u = volume s"
    using speak_hands_state_values [OF False, of e] by blast
  have "in_ranges (urate u) (upitch u) (uvolume u)" using ok u by (simp add: settings_ok_def)
  then have "handed_in_ranges u"
    using in_ranges_handed [of "urate u" "upitch u" "uvolume u"] by (simp add: handed_in_ranges_def)
  then show ?thesis using ok u speak_settings [of e s] by (simp add: settings_ok_def)
qed

lemma settings_deliver: "settings_ok (deliver e ev s) = settings_ok s"
  by (cases ev)
    (auto simp: settings_ok_def deliver_def onstart_def onend_def onerror_def generateFallbackAudio_def
       recorder_start_def recorder_stop_def Let_def split: option.splits)

lemma settings_stop: "stop s = Some s' \<Longrightarrow> settings_ok s' = settings_ok s"
  by (auto simp: settings_ok_def stop_def synth_cancel_def recorder_stop_def Let_def
        split: option.splits if_splits)

lemma settings_step: "settings_ok s \<Longrightarrow> settings_ok (step e ev s)"
proof (cases ev)
  case (SlideRate x)
  assume "settings_ok s"
  then show ?thesis
    using SlideRate parseFloat_rate_range [of x]
    by (simp add: settings_ok_def rate_onChange_def in_ranges_def)
next
  case (SlidePitch x)
  assume "settings_ok s"
  then show ?thesis
    using SlidePitch parseFloat_rate_range [of x]
    by (simp add: settings_ok_def pitch_onChange_def in_ranges_def)
next
  case (SlideVolume x)
  assume "settings_ok s"
  then show ?thesis
    using SlideVolume parseFloat_volume_range [of x]
    by (simp add: settings_ok_def volume_onChange_def in_ranges_def)
next
  case ClickSpeak
  assume "settings_ok s"
  then show ?thesis using ClickSpeak by (simp add: settings_speak)
next
  case ClickStop
  assume "settings_ok s"
  then show ?thesis using ClickStop by (auto simp: settings_stop split: option.splits)
next
  case ClickClear
  assume ok: "settings_ok s"
  have "settings_ok (s\<lparr>inputText := []\<rparr>)" using ok by (simp add: settings_ok_def)
  then show ?thesis
    using ClickClear settings_stop [of "s\<lparr>inputText := []\<rparr>"] ok
    by (auto simp: handleClear_def settings_ok_def split: option.splits Option.bind_splits)
next
  case (Engine x)
  assume "settings_ok s"
  then show ?thesis using Engine by (simp add: settings_deliver)
next
  case RecorderEvents
  assume "settings_ok s"
  then show ?thesis using RecorderEvents by (simp add: settings_run_pending)
qed (auto simp: settings_ok_def pause_def resume_def downloadAudio_def audio_captured_def
       split: option.splits)

lemma settings_run: "settings_ok s \<Longrightarrow> settings_ok (run evs s)"
  by (induction evs arbitrary: s) (auto simp: settings_step)

lemma settings_initial: "settings_ok initial"
  by (simp add: settings_ok_def initial_def in_ranges_def)
lemma slider_values: "parseFloat (range_value (1 / 2) 2 5) = 2"
  "parseFloat (range_value (1 / 2) 2 (1 / 10)) = 1 / 2" "parseFloat (range_value 0 1 (- 3)) = 0"
  by code_simp+

lemma run_slider_demo:
  "run slider_demo initial
   = initial\<lparr>inputText := js ''Hi'', rate := 2, pitch := 1 / 2, volume := 0, isProcessing := True,
       streamLive := Some True, mediaRecorder := Some \<lparr>rstate = Inactive, gathered = []\<rparr>,
       utteranceRef := Some \<lparr>utext = js ''Hi'', uvoice = None, urate = 2, upitch = 1 / 2,
                               uvolume = 0, recordingReady = True, recordingStarted = False\<rparr>,
       synth_speaking := True,
       synth_spoken := [\<lparr>utext = js ''Hi'', uvoice = None, urate = 2, upitch = 1 / 2, uvolume = 0,
                          recordingReady = True, recordingStarted = False\<rparr>]\<rparr>"
  using js_hi_nonempty
  by (simp add: slider_demo_def rate_onChange_def pitch_onChange_def volume_onChange_def
        slider_values speak_def trim_hi setupAudioRecording_def host_def initial_def Let_def)

text \<open>
  C5: in every state the component can reach from its mount, whatever positions the sliders
  were asked for, the rate, pitch and volume of the state are within [0.5, 2], [0.5, 2] and
  [0, 1], and so is every utterance that was handed to the engine; the utterance that
  \<open>speak\<close> hands over next carries exactly the state's three values, which equal their
  clamps to these ranges. The clamping is done by the range inputs; \<open>speak\<close> copies the
  values.
\<close>

theorem engine_parameters_in_range:
  "in_ranges (rate (run evs initial)) (pitch (run evs initial)) (volume (run evs initial))
   \<and> list_all handed_in_ranges (synth_spoken (run evs initial))
   \<and> (trim (inputText (run evs initial)) \<noteq> [] \<longrightarrow>
        (\<exists>u. synth_spoken (speak e (run evs initial)) = synth_spoken (run evs initial) @ [u]
             \<and> urate u = rate (run evs initial) \<and> upitch u = pitch (run evs initial)
             \<and> uvolume u = volume (run evs initial) \<and> handed_in_ranges u))"
proof -
  let ?s = "run evs initial"
  have ok: "settings_ok ?s" using settings_initial by (rule settings_run)
  have sp: "settings_ok (speak e ?s)" using ok by (rule settings_speak)
  have "\<exists>u. synth_spoken (speak e ?s) = synth_spoken ?s @ [u]
             \<and> urate u = rate ?s \<and> upitch u = pitch ?s \<and> uvolume u = volume ?s \<and> handed_in_ranges u"
    if t: "trim (inputText ?s) \<noteq> []"
  proof -
    obtain u where u: "synth_spoken (speak e ?s) = synth_spoken ?s @ [u]"
      "urate u = rate ?s" "upitch u = pitch ?s" "uvolume u = volume ?s"
      using speak_hands_state_values [OF t, of e] by blast
    have "handed_in_ranges u" using sp u(1) by (simp add: settings_ok_def)
    then show ?thesis using u by blast
  qed
  then show ?thesis using ok by (simp add: settings_ok_def)
qed

theorem engine_parameters_in_range_witness:
  "trim (inputText (run slider_demo initial)) \<noteq> []
   \<and> map urate (synth_spoken (run slider_demo initial)) = [2]
   \<and> map upitch (synth_spoken (run slider_demo initial)) = [1 / 2]
   \<and> map uvolume (synth_spoken (run slider_demo initial)) = [0]
   \<and> list_all handed_in_ranges (synth_spoken (run slider_demo initial))
   \<and> (\<exists>u. synth_spoken (speak host (run slider_demo initial)) = synth_spoken (run slider_demo initial) @ [u]
          \<and> urate u = 2 \<and> upitch u = 1 / 2 \<and> uvolume u = 0 \<and> handed_in_ranges u)"
proof -
  have t: "trim (inputText (run slider_demo initial)) \<noteq> []"
    using js_hi_nonempty by (simp add: run_slider_demo trim_hi)
  have m: "map urate (synth_spoken (run slider_demo initial)) = [2]"
    "map upitch (synth_spoken (run slider_demo initial)) = [1 / 2]"
    "map uvolume (synth_spoken (run slider_demo initial)) = [0]"
    "rate (run slider_demo initial) = 2" "pitch (run slider_demo initial) = 1 / 2"
    "volume (run slider_demo initial) = 0"
    by (simp_all add: run_slider_demo)
  note w = engine_parameters_in_range [of slider_demo host, unfolded m(4-6)]
  show ?thesis using w t m(1-3) by blast
qed

end
